theory Spec2Isabelle
  imports Complex_Main "HOL-Library.Log_Nat"
begin

section \<open>Arrays\<close>

text \<open>
  The program (\<^verbatim>\<open>simulate_export.py\<close>) works on two-dimensional numpy arrays. An array
  of shape \<open>(Ny, Nx)\<close> is modelled as the list of its \<open>Ny\<close> rows, each a list of \<open>Nx\<close>
  cells; \<open>G ! j ! i\<close> is numpy's \<open>G[j, i]\<close>. A numpy array is rectangular by construction;
  \<open>has_shape\<close> states it for a list of rows.

  A cell of dtype \<open>float64\<close> is a value of \<open>fval\<close> (below): a finite number, an
  infinity or NaN. Python's \<open>int\<close> is \<open>int\<close>.
\<close>

type_synonym 'a grid = "'a list list"

definition has_shape :: "nat \<Rightarrow> nat \<Rightarrow> 'a grid \<Rightarrow> bool" where
  "has_shape ny nx G = (length G = ny \<and> list_all (\<lambda>row. length row = nx) G)"

definition nrows :: "'a grid \<Rightarrow> nat" where
  "nrows G = length G"

definition ncols :: "'a grid \<Rightarrow> nat" where
  "ncols G = (case G of [] \<Rightarrow> 0 | row # _ \<Rightarrow> length row)"

text \<open>The array of shape \<open>(ny, nx)\<close> whose cell \<open>(j, i)\<close> is \<open>f j i\<close>.\<close>

definition tabulate :: "nat \<Rightarrow> nat \<Rightarrow> (nat \<Rightarrow> nat \<Rightarrow> 'a) \<Rightarrow> 'a grid" where
  "tabulate ny nx f = map (\<lambda>j. map (\<lambda>i. f j i) [0..<nx]) [0..<ny]"

section \<open>Mirror half to full\<close>

text \<open>
  \<^verbatim>\<open>
  def mirror_full_from_half(T_half):
      left = T_half[:, 1:][:, ::-1]
      return np.hstack([left, T_half])
  \<close>
  Row by row: the columns from 1 on, reversed, followed by the row itself.
\<close>

definition mirror_full_from_half :: "'a grid \<Rightarrow> 'a grid" where
  "mirror_full_from_half T_half = map (\<lambda>row. rev (drop 1 row) @ row) T_half"

text \<open>
  The columns \<open>a\<close> through \<open>b\<close> (both included) of an array, numpy's \<open>G[:, a:b+1]\<close>
  for \<open>0 \<le> a\<close>.
\<close>

definition extract_columns :: "nat \<Rightarrow> nat \<Rightarrow> 'a grid \<Rightarrow> 'a grid" where
  "extract_columns a b G = map (\<lambda>row. take (Suc b - a) (drop a row)) G"

section \<open>Python and numpy primitives\<close>

text \<open>The exceptions the program can raise on its own inputs.\<close>

datatype error = ZeroDivisionError | ValueError | IndexError | OverflowError

text \<open>
  Python 3's \<^verbatim>\<open>round(x)\<close> on a float, with no digits given: the nearest integer,
  a tie going to the even neighbour. The result is an \<open>int\<close> already, so the \<^verbatim>\<open>int(...)\<close>
  around it changes nothing.
\<close>

definition py_round :: "real \<Rightarrow> int" where
  "py_round x =
    (let f = \<lfloor>x\<rfloor>; d = x - of_int f in
     if d < 1 / 2 then f
     else if 1 / 2 < d then f + 1
     else if even f then f else f + 1)"

section \<open>Floating point\<close>

text \<open>
  Rounding to \<open>float64\<close>: the nearest number with a 53-bit significand, a tie going to
  the even significand, with gradual underflow below \<open>2 powi (-1022)\<close>. \<open>ilog2 x\<close> is the
  exponent of a positive \<open>x\<close>, the integer \<open>e\<close> with \<open>2 powi e \<le> x < 2 powi (e + 1)\<close>;
  \<open>ulp x\<close>, the spacing of the floats around \<open>x\<close>, is \<open>2 powi (max e (-1022) - 52)\<close>, and
  \<open>x\<close> goes to the nearest multiple of it.
\<close>

definition ilog2 :: "real \<Rightarrow> int" where
  "ilog2 x = (if 1 \<le> x then bitlen \<lfloor>x\<rfloor> - 1 else - bitlen (\<lceil>1 / x\<rceil> - 1))"

definition ulp :: "real \<Rightarrow> real" where
  "ulp x = 2 powi (max (ilog2 \<bar>x\<bar>) (- 1022) - 52)"

definition fl64 :: "real \<Rightarrow> real" where
  "fl64 x = (if x = 0 then 0 else of_int (py_round (x / ulp x)) * ulp x)"

text \<open>
  Python's scalar float arithmetic, used by the builder for the spacings and the indices
  of the inner square: the exact result rounded to \<open>float64\<close>. The rounding is modelled
  here because it decides which integer \<^verbatim>\<open>round\<close> returns. A division raises when the
  divisor is zero. An \<open>int\<close> operand is converted first, which raises when it is too large
  for a float. Overflow of a finite result to infinity is not modelled.
\<close>

definition py_div :: "real \<Rightarrow> real \<Rightarrow> error + real" where
  "py_div a b = (if b = 0 then Inl ZeroDivisionError else Inr (fl64 (a / b)))"

definition py_float_of_int :: "int \<Rightarrow> error + real" where
  "py_float_of_int k =
    (if 2 ^ 1024 - 2 ^ 970 \<le> \<bar>k\<bar> then Inl OverflowError else Inr (fl64 (of_int k)))"

definition py_div_int :: "real \<Rightarrow> int \<Rightarrow> error + real" where
  "py_div_int a k = (case py_float_of_int k of Inl e \<Rightarrow> Inl e | Inr b \<Rightarrow> py_div a b)"

text \<open>
  A \<open>float64\<close> cell of an array: a finite number, plus or minus infinity, or NaN. numpy's
  array arithmetic never raises; it follows IEEE 754 on the special values. On finite
  numbers the operations below are exact: the rounding of cell values (and their overflow
  to infinity) is not modelled, and zero has no sign. \<open>inf_signed a\<close> is the infinity with
  the sign of \<open>a\<close>, and NaN for \<open>a = 0\<close>.
\<close>

datatype fval = Fin real | PInf | NInf | NaN

definition inf_signed :: "real \<Rightarrow> fval" where
  "inf_signed a = (if a = 0 then NaN else if 0 < a then PInf else NInf)"

fun fneg :: "fval \<Rightarrow> fval" where
  "fneg (Fin a) = Fin (- a)"
| "fneg PInf = NInf"
| "fneg NInf = PInf"
| "fneg NaN = NaN"

fun fadd :: "fval \<Rightarrow> fval \<Rightarrow> fval" where
  "fadd (Fin a) (Fin b) = Fin (a + b)"
| "fadd NaN y = NaN"
| "fadd x NaN = NaN"
| "fadd PInf NInf = NaN"
| "fadd NInf PInf = NaN"
| "fadd PInf y = PInf"
| "fadd x PInf = PInf"
| "fadd NInf y = NInf"
| "fadd x NInf = NInf"

definition fsub :: "fval \<Rightarrow> fval \<Rightarrow> fval" where
  "fsub x y = fadd x (fneg y)"

fun fmul :: "fval \<Rightarrow> fval \<Rightarrow> fval" where
  "fmul (Fin a) (Fin b) = Fin (a * b)"
| "fmul NaN y = NaN"
| "fmul x NaN = NaN"
| "fmul (Fin a) PInf = inf_signed a"
| "fmul (Fin a) NInf = inf_signed (- a)"
| "fmul PInf (Fin b) = inf_signed b"
| "fmul NInf (Fin b) = inf_signed (- b)"
| "fmul PInf PInf = PInf"
| "fmul PInf NInf = NInf"
| "fmul NInf PInf = NInf"
| "fmul NInf NInf = PInf"

text \<open>
  \<^verbatim>\<open>x / y\<close> on arrays: a finite number divided by zero is an infinity (NaN for \<open>0 / 0\<close>),
  with a warning and no exception.
\<close>

fun np_divide :: "fval \<Rightarrow> fval \<Rightarrow> fval" where
  "np_divide (Fin a) (Fin b) = (if b = 0 then inf_signed a else Fin (a / b))"
| "np_divide NaN y = NaN"
| "np_divide x NaN = NaN"
| "np_divide (Fin a) y = Fin 0"
| "np_divide PInf (Fin b) = (if 0 \<le> b then PInf else NInf)"
| "np_divide NInf (Fin b) = (if 0 \<le> b then NInf else PInf)"
| "np_divide x y = NaN"

fun fabs :: "fval \<Rightarrow> fval" where
  "fabs (Fin a) = Fin \<bar>a\<bar>"
| "fabs PInf = PInf"
| "fabs NInf = PInf"
| "fabs NaN = NaN"

text \<open>Comparisons: every comparison with NaN is false.\<close>

fun flt :: "fval \<Rightarrow> fval \<Rightarrow> bool" where
  "flt (Fin a) (Fin b) = (a < b)"
| "flt NaN y = False"
| "flt x NaN = False"
| "flt x NInf = False"
| "flt PInf y = False"
| "flt x y = True"

fun fle :: "fval \<Rightarrow> fval \<Rightarrow> bool" where
  "fle (Fin a) (Fin b) = (a \<le> b)"
| "fle NaN y = False"
| "fle x NaN = False"
| "fle NInf y = True"
| "fle x PInf = True"
| "fle x y = False"

text \<open>The larger of two values as \<^verbatim>\<open>np.max\<close> takes it: NaN wins.\<close>

definition fmax :: "fval \<Rightarrow> fval \<Rightarrow> fval" where
  "fmax x y = (if x = NaN \<or> y = NaN then NaN else if flt x y then y else x)"

section \<open>Slices and array assignments\<close>

text \<open>
  A slice bound of \<^verbatim>\<open>a[start:stop]\<close> on an axis of length \<open>n\<close>: a negative bound
  counts from the end, and the result is clipped to \<open>0..n\<close>. Index \<open>k\<close> is in the slice
  when it lies between the two clipped bounds.
\<close>

definition slice_bound :: "int \<Rightarrow> nat \<Rightarrow> nat" where
  "slice_bound b n = (if b < 0 then nat (max (b + int n) 0) else min (nat b) n)"

definition in_slice :: "int \<Rightarrow> int \<Rightarrow> nat \<Rightarrow> nat \<Rightarrow> bool" where
  "in_slice start stop n k = (slice_bound start n \<le> k \<and> k < slice_bound stop n)"

text \<open>\<^verbatim>\<open>np.full((ny, nx), v)\<close>; \<^verbatim>\<open>np.zeros_like(T, dtype=bool)\<close> is the same with \<open>False\<close>.\<close>

definition np_full :: "nat \<Rightarrow> nat \<Rightarrow> 'a \<Rightarrow> 'a grid" where
  "np_full ny nx v = tabulate ny nx (\<lambda>j i. v)"

text \<open>\<^verbatim>\<open>G[r, :] = v\<close>\<close>

definition assign_row :: "nat \<Rightarrow> 'a \<Rightarrow> 'a grid \<Rightarrow> 'a grid" where
  "assign_row r v G = tabulate (nrows G) (ncols G) (\<lambda>j i. if j = r then v else G ! j ! i)"

text \<open>\<^verbatim>\<open>G[:, c] = v\<close>\<close>

definition assign_col :: "nat \<Rightarrow> 'a \<Rightarrow> 'a grid \<Rightarrow> 'a grid" where
  "assign_col c v G = tabulate (nrows G) (ncols G) (\<lambda>j i. if i = c then v else G ! j ! i)"

text \<open>\<^verbatim>\<open>G[:, c] = column\<close>, one value per row\<close>

definition assign_col_values :: "nat \<Rightarrow> 'a list \<Rightarrow> 'a grid \<Rightarrow> 'a grid" where
  "assign_col_values c column G =
    tabulate (nrows G) (ncols G) (\<lambda>j i. if i = c then column ! j else G ! j ! i)"

text \<open>\<^verbatim>\<open>G[a:b, c:d] = v\<close>\<close>

definition assign_block :: "int \<Rightarrow> int \<Rightarrow> int \<Rightarrow> int \<Rightarrow> 'a \<Rightarrow> 'a grid \<Rightarrow> 'a grid" where
  "assign_block a b c d v G =
    tabulate (nrows G) (ncols G)
      (\<lambda>j i. if in_slice a b (nrows G) j \<and> in_slice c d (ncols G) i then v else G ! j ! i)"

text \<open>
  \<^verbatim>\<open>np.linspace(start, stop, num)\<close>: \<open>num\<close> evenly spaced samples, the last one set to
  \<open>stop\<close>.
\<close>

definition linspace :: "real \<Rightarrow> real \<Rightarrow> nat \<Rightarrow> real list" where
  "linspace start stop num =
    map (\<lambda>j. if 1 < num \<and> j = num - 1 then stop
             else real j * ((stop - start) / real (num - 1)) + start) [0..<num]"

text \<open>\<^verbatim>\<open>np.clip(x, lo, hi)\<close>\<close>

definition np_clip :: "real \<Rightarrow> real \<Rightarrow> real \<Rightarrow> real" where
  "np_clip x lo hi = min (max x lo) hi"

text \<open>\<^verbatim>\<open>np.any(M)\<close>\<close>

definition np_any :: "bool grid \<Rightarrow> bool" where
  "np_any M = list_ex (\<lambda>row. list_ex (\<lambda>b. b) row) M"

text \<open>\<^verbatim>\<open>A[M]\<close> for a boolean array \<open>M\<close>: the selected cells, row by row.\<close>

definition boolean_index :: "'a grid \<Rightarrow> bool grid \<Rightarrow> 'a list" where
  "boolean_index A M = [A ! j ! i. j \<leftarrow> [0..<nrows A], i \<leftarrow> [0..<ncols A], M ! j ! i]"

text \<open>\<^verbatim>\<open>np.max(xs)\<close> raises \<^verbatim>\<open>ValueError\<close> on an empty selection.\<close>

fun np_max :: "fval list \<Rightarrow> error + fval" where
  "np_max [] = Inl ValueError"
| "np_max (x # xs) = Inr (fold fmax xs x)"

section \<open>Problem construction\<close>

text \<open>
  \<^verbatim>\<open>build_problem_half\<close>, lines 20 to 38: the initial guess everywhere, the bottom and top
  rows, and the outer wall profile in the last column (\<open>T_bottom\<close> up to the bath height
  \<open>y0\<close>, then linear up to \<open>T_top\<close>). Both rows and the column are marked fixed. The profile
  is computed by numpy on arrays, so its division does not raise: where the divisor
  \<open>L - y0\<close> is zero (for \<open>L < 0\<close>, where the clipped bath height is \<open>L\<close> itself) the wall
  cell above the bath is an infinity, or NaN when \<open>T_top = T_bottom\<close>.
\<close>

definition side_profile :: "real \<Rightarrow> real \<Rightarrow> real \<Rightarrow> real \<Rightarrow> real list \<Rightarrow> fval list" where
  "side_profile L y0 T_top T_bottom y =
    map (\<lambda>yj. if yj \<le> y0 then Fin T_bottom
               else fadd (Fin T_bottom)
                      (fmul (Fin (T_top - T_bottom))
                         (np_divide (Fin (yj - y0)) (Fin (L - y0))))) y"

definition boundary_problem ::
  "nat \<Rightarrow> nat \<Rightarrow> real \<Rightarrow> real \<Rightarrow> real \<Rightarrow> real \<Rightarrow> real option \<Rightarrow> real \<Rightarrow> fval grid \<times> bool grid" where
  "boundary_problem Ny Nx_half L T_top T_bottom init_guess bath_height bath_fraction =
    (let T = np_full Ny Nx_half (Fin init_guess);
         fixed = np_full Ny Nx_half False;
         y = linspace 0 L Ny;
         T = assign_row 0 (Fin T_bottom) T;
         fixed = assign_row 0 True fixed;
         T = assign_row (Ny - 1) (Fin T_top) T;
         fixed = assign_row (Ny - 1) True fixed;
         y0 = (case bath_height of Some b \<Rightarrow> b | None \<Rightarrow> bath_fraction * L);
         y0 = np_clip y0 0 L;
         T = assign_col_values (Nx_half - 1) (side_profile L y0 T_top T_bottom y) T;
         fixed = assign_col (Nx_half - 1) True fixed
     in (T, fixed))"

text \<open>
  Lines 41 to 45: the index range of the inner hot square. Each end of the row range is
  rounded on its own. Every operation is Python's on floats: its result is rounded to
  \<open>float64\<close> before \<^verbatim>\<open>round\<close> sees it, and the three divisions raise on a zero spacing.
\<close>

definition inner_square_indices ::
  "real \<Rightarrow> real \<Rightarrow> real \<Rightarrow> real \<Rightarrow> error + (int \<times> int \<times> int \<times> int)" where
  "inner_square_indices L L_inner h_y h_x =
    (let half = fl64 (L / 2); inner_half = fl64 (L_inner / 2) in
     case py_div (fl64 (half - inner_half)) h_y of Inl e \<Rightarrow> Inl e
     | Inr q_low \<Rightarrow>
     case py_div (fl64 (half + inner_half)) h_y of Inl e \<Rightarrow> Inl e
     | Inr q_high \<Rightarrow>
     case py_div inner_half h_x of Inl e \<Rightarrow> Inl e
     | Inr q_right \<Rightarrow> Inr (py_round q_low, py_round q_high, 0, py_round q_right))"

text \<open>
  The whole builder. In the order of the source: \<open>h_y = L / (Ny - 1)\<close> comes first and
  raises for \<open>N = 1\<close>; \<open>h_x\<close> is guarded; \<^verbatim>\<open>np.full\<close> refuses a negative dimension and an
  array of \<open>2 ^ 63\<close> bytes or more (what memory allows below that is not modelled);
  \<^verbatim>\<open>T[0, :]\<close> needs a row; then the boundary values, the inner square's indices and the
  slice assignment \<^verbatim>\<open>T[j_low:j_high+1, i_left:i_right+1] = T_inner\<close>.
\<close>

definition build_problem_half ::
  "int \<Rightarrow> real \<Rightarrow> real \<Rightarrow> real \<Rightarrow> real \<Rightarrow> real \<Rightarrow> real \<Rightarrow> real option \<Rightarrow> real \<Rightarrow>
    error + (fval grid \<times> bool grid \<times> real \<times> real \<times> real)" where
  "build_problem_half N L L_inner T_top T_bottom T_inner init_guess bath_height bath_fraction =
    (let Ny = N; Nx_full = N in
     case py_div_int L (Ny - 1) of Inl e \<Rightarrow> Inl e
     | Inr h_y \<Rightarrow>
     let Nx_half = Nx_full div 2 + 1 in
     case (if 1 < Nx_half then py_div_int (fl64 (L / 2)) (Nx_half - 1) else Inr 0) of
       Inl e \<Rightarrow> Inl e
     | Inr h_x \<Rightarrow>
     if Ny < 0 \<or> Nx_half < 0 \<or> 2 ^ 63 \<le> Ny * Nx_half * 8 then Inl ValueError
     else if Ny = 0 then Inl IndexError
     else
       let (T, fixed) = boundary_problem (nat Ny) (nat Nx_half) L T_top T_bottom init_guess
             bath_height bath_fraction in
       case inner_square_indices L L_inner h_y h_x of Inl e \<Rightarrow> Inl e
       | Inr (j_low, j_high, i_left, i_right) \<Rightarrow>
           Inr (assign_block j_low (j_high + 1) i_left (i_right + 1) (Fin T_inner) T,
                assign_block j_low (j_high + 1) i_left (i_right + 1) True fixed,
                h_y, h_x, L))"

text \<open>
  The row range of the inner square as the specification words it, for comparison with
  \<open>inner_square_indices\<close>: the half-extent \<open>(L_inner / 2) / h_y\<close> rounded to a row offset,
  taken below and above the mid-height row \<open>(N - 1) div 2\<close>.
\<close>

definition spec_inner_row_range :: "int \<Rightarrow> real \<Rightarrow> real \<Rightarrow> int \<times> int" where
  "spec_inner_row_range N L_inner h_y =
    (let mid = (N - 1) div 2; offset = py_round (L_inner / 2 / h_y)
     in (mid - offset, mid + offset))"

section \<open>Export\<close>

text \<open>
  \<^verbatim>\<open>export_structured_csv_full\<close> writes one record \<open>(i, j, k, x, y, Temperature)\<close> per
  node, row by row. The file system is not modelled: the function returns the records.
  Its two divisions are Python's and raise for an array with one column or one row; the
  dimensions of an array are taken as exactly representable floats (they are below
  \<open>2 ^ 53\<close>).
\<close>

type_synonym csv_record = "nat \<times> nat \<times> nat \<times> real \<times> real \<times> fval"

definition export_structured_csv_full :: "fval grid \<Rightarrow> real \<Rightarrow> error + csv_record list" where
  "export_structured_csv_full T_full L =
    (let Ny = nrows T_full; Nx = ncols T_full in
     case py_div L (of_int (int Nx - 1)) of Inl e \<Rightarrow> Inl e
     | Inr h_x \<Rightarrow>
     case py_div L (of_int (int Ny - 1)) of Inl e \<Rightarrow> Inl e
     | Inr h_y \<Rightarrow>
       Inr [(i, j, 0, fl64 (real i * h_x), fl64 (real j * h_y), T_full ! j ! i).
              j \<leftarrow> [0..<Ny], i \<leftarrow> [0..<Nx]])"

section \<open>Jacobi solver\<close>

text \<open>
  Lines 101 to 105: the cells that get updated.
  \<^verbatim>\<open>
  var = ~fixed
  var[:, 0]  = False; var[0, :]  = False; var[-1, :] = False; var[:, -1] = False
  \<close>
\<close>

definition variable_mask :: "bool grid \<Rightarrow> bool grid" where
  "variable_mask fixed =
    (let var = map (map Not) fixed;
         var = assign_col 0 False var;
         var = assign_row 0 False var;
         var = assign_row (nrows fixed - 1) False var;
         var = assign_col (ncols fixed - 1) False var
     in var)"

text \<open>
  Line 114: \<^verbatim>\<open>avg = 0.25 * (T[:-2, 1:-1] + T[2:, 1:-1] + T[1:-1, :-2] + T[1:-1, 2:])\<close>,
  an array of shape \<open>(Ny - 2, Nx - 2)\<close> (empty when the grid has fewer than three rows or
  columns); its cell \<open>(a, b)\<close> belongs to the grid's cell \<open>(a + 1, b + 1)\<close>.
\<close>

definition jacobi_average :: "fval grid \<Rightarrow> fval grid" where
  "jacobi_average T =
    tabulate (nrows T - 2) (ncols T - 2)
      (\<lambda>a b. fmul (Fin 0.25)
         (fadd (fadd (fadd (T ! a ! (b + 1)) (T ! (a + 2) ! (b + 1))) (T ! (a + 1) ! b))
            (T ! (a + 1) ! (b + 2))))"

text \<open>
  Lines 112 to 123: the next grid.
  \<^verbatim>\<open>
  T_new = T.copy()
  mask = var[1:-1, 1:-1]
  T_new[interior][mask] = avg[mask]
  T_new[:, 0] = T_new[:, 1]
  T_new[fixed] = T[fixed]
  \<close>
\<close>

definition jacobi_next :: "bool grid \<Rightarrow> bool grid \<Rightarrow> fval grid \<Rightarrow> fval grid" where
  "jacobi_next fixed var T =
    (let Ny = nrows T; Nx = ncols T;
         avg = jacobi_average T;
         mask = tabulate (Ny - 2) (Nx - 2) (\<lambda>a b. var ! (a + 1) ! (b + 1));
         T_new = tabulate Ny Nx
           (\<lambda>j i. if 1 \<le> j \<and> j < Ny - 1 \<and> 1 \<le> i \<and> i < Nx - 1 \<and> mask ! (j - 1) ! (i - 1)
                   then avg ! (j - 1) ! (i - 1) else T ! j ! i);
         T_new = tabulate Ny Nx (\<lambda>j i. if i = 0 then T_new ! j ! 1 else T_new ! j ! i);
         T_new = tabulate Ny Nx (\<lambda>j i. if fixed ! j ! i then T ! j ! i else T_new ! j ! i)
     in T_new)"

text \<open>
  Line 126: \<^verbatim>\<open>max_change = np.max(np.abs(T_new - T)[var]) if np.any(var) else 0.0\<close>
\<close>

definition convergence_metric :: "bool grid \<Rightarrow> fval grid \<Rightarrow> fval grid \<Rightarrow> error + fval" where
  "convergence_metric var T_new T =
    (if np_any var
     then np_max (boolean_index
            (tabulate (nrows T) (ncols T) (\<lambda>j i. fabs (fsub (T_new ! j ! i) (T ! j ! i)))) var)
     else Inr (Fin 0))"

text \<open>
  One pass of the loop body up to line 126. numpy raises \<^verbatim>\<open>IndexError\<close> when the mask
  and the grid differ in shape (boolean indexing), and when the grid has no column 1
  (\<^verbatim>\<open>T_new[:, 1]\<close>).
\<close>

definition jacobi_sweep :: "bool grid \<Rightarrow> bool grid \<Rightarrow> fval grid \<Rightarrow> error + (fval grid \<times> fval)" where
  "jacobi_sweep fixed var T =
    (if nrows fixed \<noteq> nrows T \<or> ncols fixed \<noteq> ncols T \<or> ncols T < 2 then Inl IndexError
     else
       let T_new = jacobi_next fixed var T in
       case convergence_metric var T_new T of Inl e \<Rightarrow> Inl e
       | Inr max_change \<Rightarrow> Inr (T_new, max_change))"

text \<open>
  The loop, lines 111 to 141, from the current grid and epoch count. The two remainders
  \<^verbatim>\<open>epochs % report_every\<close> and \<^verbatim>\<open>epochs % snap_every\<close> raise on a zero cadence; printing
  has no other effect; a snapshot and the final export can raise inside the exporter.
  The loop ends when the metric is below \<open>delta\<close> (never so for a NaN metric) or the
  epoch count has reached \<open>max_iters\<close>, so it runs at most \<open>max_iters - epochs\<close> more times
  (and at least once).
\<close>

function jacobi_loop ::
  "bool grid \<Rightarrow> bool grid \<Rightarrow> real \<Rightarrow> real \<Rightarrow> int \<Rightarrow> int \<Rightarrow> int \<Rightarrow> fval grid \<Rightarrow> int \<Rightarrow>
    error + (fval grid \<times> int \<times> fval)" where
  "jacobi_loop fixed var L delta max_iters report_every snap_every T epochs =
    (case jacobi_sweep fixed var T of Inl e \<Rightarrow> Inl e
     | Inr (T_new, max_change) \<Rightarrow>
       if report_every = 0 then Inl ZeroDivisionError
       else if snap_every = 0 then Inl ZeroDivisionError
       else
         case (if (epochs + 1) mod snap_every = 0
               then export_structured_csv_full (mirror_full_from_half T_new) L
               else Inr []) of Inl e \<Rightarrow> Inl e
         | Inr snapshot \<Rightarrow>
           if flt max_change (Fin delta) \<or> max_iters \<le> epochs + 1
           then (case export_structured_csv_full (mirror_full_from_half T_new) L of
                   Inl e \<Rightarrow> Inl e
                 | Inr final \<Rightarrow> Inr (T_new, epochs + 1, max_change))
           else jacobi_loop fixed var L delta max_iters report_every snap_every T_new (epochs + 1))"
  by pat_completeness auto
termination
  by (relation "measure (\<lambda>(fixed, var, L, delta, max_iters, report_every, snap_every, T, epochs).
        nat (max_iters - epochs))") auto

declare jacobi_loop.simps [simp del]

text \<open>
  \<^verbatim>\<open>jacobi_laplace_half_with_snapshots\<close>: the mask needs a first row and a first column in
  \<open>fixed\<close>; then the loop starts at epoch 0 on a copy of \<open>T\<close>. The spacings \<open>h_y\<close> and \<open>h_x\<close>
  are parameters the body never reads; the output directory and the file prefix only
  name files.
\<close>

definition jacobi_laplace_half_with_snapshots ::
  "fval grid \<Rightarrow> bool grid \<Rightarrow> real \<Rightarrow> real \<Rightarrow> real \<Rightarrow> real \<Rightarrow> int \<Rightarrow> int \<Rightarrow> int \<Rightarrow>
    error + (fval grid \<times> int \<times> fval)" where
  "jacobi_laplace_half_with_snapshots T fixed h_y h_x L delta max_iters report_every snap_every =
    (if nrows fixed = 0 \<or> ncols fixed = 0 then Inl IndexError
     else jacobi_loop fixed (variable_mask fixed) L delta max_iters report_every snap_every T 0)"

text \<open>A grid all of whose cells are finite numbers.\<close>

definition finite_grid :: "fval grid \<Rightarrow> bool" where
  "finite_grid T = list_all (list_all (\<lambda>v. case v of Fin a \<Rightarrow> True | _ \<Rightarrow> False)) T"

text \<open>The grid after \<open>k\<close> epochs: \<open>k\<close> passes of the update from the initial grid.\<close>

definition grid_after :: "bool grid \<Rightarrow> bool grid \<Rightarrow> nat \<Rightarrow> fval grid \<Rightarrow> fval grid" where
  "grid_after fixed var k T = ((jacobi_next fixed var) ^^ k) T"

section \<open>Shapes and cells\<close>

lemma has_shape_nth:
  "has_shape ny nx G \<Longrightarrow> j < ny \<Longrightarrow> length (G ! j) = nx"
  by (simp add: has_shape_def list_all_length)

lemma has_shape_length: "has_shape ny nx G \<Longrightarrow> length G = ny"
  by (simp add: has_shape_def)

lemma has_shapeI:
  "length G = ny \<Longrightarrow> (\<And>j. j < ny \<Longrightarrow> length (G ! j) = nx) \<Longrightarrow> has_shape ny nx G"
  by (simp add: has_shape_def list_all_length)

lemma has_shape_nrows: "has_shape ny nx G \<Longrightarrow> nrows G = ny"
  by (simp add: has_shape_def nrows_def)

lemma has_shape_ncols: "has_shape ny nx G \<Longrightarrow> 0 < ny \<Longrightarrow> ncols G = nx"
  by (cases G) (simp_all add: has_shape_def ncols_def)

lemma has_shape_tabulate: "has_shape ny nx (tabulate ny nx f)"
  by (simp add: has_shape_def tabulate_def list_all_length)

lemma nth_tabulate: "j < ny \<Longrightarrow> i < nx \<Longrightarrow> tabulate ny nx f ! j ! i = f j i"
  by (simp add: tabulate_def)

lemma grid_eqI:
  assumes "has_shape ny nx A" and "has_shape ny nx B"
    and "\<And>j i. j < ny \<Longrightarrow> i < nx \<Longrightarrow> A ! j ! i = B ! j ! i"
  shows "A = B"
proof (rule nth_equalityI)
  show "length A = length B"
    using assms(1,2) by (simp add: has_shape_def)
next
  fix j assume j: "j < length A"
  then have jn: "j < ny" using assms(1) by (simp add: has_shape_def)
  have la: "length (A ! j) = nx" using assms(1) jn by (rule has_shape_nth)
  have lb: "length (B ! j) = nx" using assms(2) jn by (rule has_shape_nth)
  show "A ! j = B ! j"
  proof (rule nth_equalityI)
    show "length (A ! j) = length (B ! j)" using la lb by simp
  next
    fix i assume "i < length (A ! j)"
    then show "A ! j ! i = B ! j ! i" using assms(3) jn la by simp
  qed
qed

section \<open>Properties of the mirror\<close>

lemma mirror_row_nth:
  assumes "length row = n" and "i < 2 * n - 1"
  shows "(rev (drop 1 row) @ row) ! i = row ! (if i < n - 1 then n - 1 - i else i - (n - 1))"
proof (cases "i < n - 1")
  case True
  then have "Suc (n - Suc (Suc i)) = n - 1 - i" by arith
  with True assms show ?thesis by (simp add: nth_append rev_nth)
next
  case False
  with assms show ?thesis by (simp add: nth_append)
qed

lemma mirror_row_symmetric:
  assumes n: "length row = n" and i: "i < 2 * n - 1"
  shows "(rev (drop 1 row) @ row) ! i = (rev (drop 1 row) @ row) ! (2 * n - 1 - 1 - i)"
proof -
  have k: "2 * n - 1 - 1 - i < 2 * n - 1" using i by arith
  have "(if i < n - 1 then n - 1 - i else i - (n - 1)) =
    (if 2 * n - 1 - 1 - i < n - 1 then n - 1 - (2 * n - 1 - 1 - i) else 2 * n - 1 - 1 - i - (n -
      1))"
    using i by (auto split: if_splits)
  then show ?thesis
    using mirror_row_nth [OF n i] mirror_row_nth [OF n k] by simp
qed

lemma has_shape_mirror:
  assumes "has_shape Ny Nx_half T_half" and "1 \<le> Nx_half"
  shows "has_shape Ny (2 * Nx_half - 1) (mirror_full_from_half T_half)"
proof (rule has_shapeI)
  show "length (mirror_full_from_half T_half) = Ny"
    using has_shape_length [OF assms(1)] by (simp add: mirror_full_from_half_def)
next
  fix j assume "j < Ny"
  then show "length (mirror_full_from_half T_half ! j) = 2 * Nx_half - 1"
    using has_shape_length [OF assms(1)] has_shape_nth [OF assms(1), of j] assms(2)
    by (simp add: mirror_full_from_half_def)
qed

text \<open>
  C3. For a half-domain grid with \<open>Ny\<close> rows and \<open>Nx_half \<ge> 1\<close> columns, the mirror
  has \<open>Ny\<close> rows of width \<open>W = 2 * Nx_half - 1\<close>, \<open>W\<close> is odd, and every row reads the
  same from both ends: \<open>full[j, i] = full[j, W - 1 - i]\<close> for all rows \<open>j\<close> and columns \<open>i\<close>.
\<close>

theorem mirror_shape_symmetric:
  assumes "has_shape Ny Nx_half T_half" and "1 \<le> Nx_half"
  shows "has_shape Ny (2 * Nx_half - 1) (mirror_full_from_half T_half) \<and>
    odd (2 * Nx_half - 1) \<and>
    (\<forall>j i. j < Ny \<and> i < 2 * Nx_half - 1 \<longrightarrow>
       mirror_full_from_half T_half ! j ! i =
       mirror_full_from_half T_half ! j ! (2 * Nx_half - 1 - 1 - i))"
proof -
  have len: "length T_half = Ny" using assms(1) by (rule has_shape_length)
  have odd: "odd (2 * Nx_half - 1)" using assms(2) by auto
  have sym: "mirror_full_from_half T_half ! j ! i =
      mirror_full_from_half T_half ! j ! (2 * Nx_half - 1 - 1 - i)"
    if "j < Ny" "i < 2 * Nx_half - 1" for j i
  proof -
    have "mirror_full_from_half T_half ! j = rev (drop 1 (T_half ! j)) @ T_half ! j"
      using that(1) len by (simp add: mirror_full_from_half_def)
    then show ?thesis
      using mirror_row_symmetric [OF has_shape_nth [OF assms(1) that(1)] that(2)] by simp
  qed
  from has_shape_mirror [OF assms] odd sym show ?thesis by blast
qed



theorem mirror_shape_symmetric_witness:
  "has_shape 2 3 [[1, 2, 3], [4, 5, 6::real]] \<and>
   has_shape 2 5 (mirror_full_from_half [[1, 2, 3], [4, 5, 6::real]]) \<and>
   mirror_full_from_half [[1, 2, 3], [4, 5, 6::real]] ! 1 ! 0 =
   mirror_full_from_half [[1, 2, 3], [4, 5, 6::real]] ! 1 ! 4"
proof -
  have s: "has_shape 2 3 [[1, 2, 3], [4, 5, 6::real]]" by (simp add: has_shape_def)
  have n: "1 \<le> (3::nat)" by simp
  note t = mirror_shape_symmetric [OF s n]
  have a: "has_shape 2 5 (mirror_full_from_half [[1, 2, 3], [4, 5, 6::real]])"
    using t [THEN conjunct1] by simp
  have b: "mirror_full_from_half [[1, 2, 3], [4, 5, 6::real]] ! 1 ! 0 =
      mirror_full_from_half [[1, 2, 3], [4, 5, 6::real]] ! 1 ! 4"
    using t [THEN conjunct2, THEN conjunct2, THEN spec, THEN spec, of 1 0] by simp
  from s a b show ?thesis by blast
qed

text \<open>
  C9. For a half-domain grid with \<open>Nx_half\<close> columns, the columns \<open>Nx_half - 1\<close> through
  \<open>W - 1\<close> of its mirror (\<open>W = 2 * Nx_half - 1\<close>) are the grid itself.
\<close>

theorem mirror_round_trip:
  assumes "has_shape Ny Nx_half T_half" and "1 \<le> Nx_half"
  shows "extract_columns (Nx_half - 1) (2 * Nx_half - 1 - 1) (mirror_full_from_half T_half) =
    T_half"
proof -
  have row: "take (Suc (2 * Nx_half - 1 - 1) - (Nx_half - 1)) (drop (Nx_half - 1) (rev (drop 1
    row) @ row)) = row"
    if "row \<in> set T_half" for row
  proof -
    from that assms(1) have "length row = Nx_half"
      by (simp add: has_shape_def list_all_iff)
    with assms(2) show ?thesis by simp
  qed
  have "map (\<lambda>row. take (Suc (2 * Nx_half - 1 - 1) - (Nx_half - 1)) (drop (Nx_half - 1) (rev (drop
    1 row) @ row))) T_half = T_half"
    by (rule map_idI) (rule row)
  then show ?thesis
    by (simp add: extract_columns_def mirror_full_from_half_def o_def)
qed

theorem mirror_round_trip_witness:
  "has_shape 2 3 [[1, 2, 3], [4, 5, 6::real]] \<and>
   extract_columns 2 4 (mirror_full_from_half [[1, 2, 3], [4, 5, 6::real]]) = [[1, 2, 3],
     [4, 5, 6]]"
proof -
  have s: "has_shape 2 3 [[1, 2, 3], [4, 5, 6::real]]" by (simp add: has_shape_def)
  have n: "1 \<le> (3::nat)" by simp
  show ?thesis using s mirror_round_trip [OF s n] by simp
qed

section \<open>Array assignments\<close>

lemma has_shape_dims: "has_shape ny nx G \<Longrightarrow> 0 < ny \<Longrightarrow> nrows G = ny \<and> ncols G = nx"
  by (simp add: has_shape_nrows has_shape_ncols)

lemma has_shape_np_full: "has_shape ny nx (np_full ny nx v)"
  by (simp add: np_full_def has_shape_tabulate)

lemma nth_np_full: "j < ny \<Longrightarrow> i < nx \<Longrightarrow> np_full ny nx v ! j ! i = v"
  by (simp add: np_full_def nth_tabulate)

lemma has_shape_assign_row:
  "has_shape ny nx G \<Longrightarrow> 0 < ny \<Longrightarrow> has_shape ny nx (assign_row r v G)"
  by (simp add: assign_row_def has_shape_dims has_shape_tabulate)

lemma nth_assign_row:
  "has_shape ny nx G \<Longrightarrow> j < ny \<Longrightarrow> i < nx \<Longrightarrow>
    assign_row r v G ! j ! i = (if j = r then v else G ! j ! i)"
  by (simp add: assign_row_def has_shape_dims nth_tabulate)

lemma has_shape_assign_col:
  "has_shape ny nx G \<Longrightarrow> 0 < ny \<Longrightarrow> has_shape ny nx (assign_col c v G)"
  by (simp add: assign_col_def has_shape_dims has_shape_tabulate)

lemma nth_assign_col:
  "has_shape ny nx G \<Longrightarrow> j < ny \<Longrightarrow> i < nx \<Longrightarrow>
    assign_col c v G ! j ! i = (if i = c then v else G ! j ! i)"
  by (simp add: assign_col_def has_shape_dims nth_tabulate)

lemma has_shape_assign_col_values:
  "has_shape ny nx G \<Longrightarrow> 0 < ny \<Longrightarrow> has_shape ny nx (assign_col_values c col G)"
  by (simp add: assign_col_values_def has_shape_dims has_shape_tabulate)

lemma nth_assign_col_values:
  "has_shape ny nx G \<Longrightarrow> j < ny \<Longrightarrow> i < nx \<Longrightarrow>
    assign_col_values c col G ! j ! i = (if i = c then col ! j else G ! j ! i)"
  by (simp add: assign_col_values_def has_shape_dims nth_tabulate)

lemma has_shape_assign_block:
  "has_shape ny nx G \<Longrightarrow> 0 < ny \<Longrightarrow> has_shape ny nx (assign_block a b c d v G)"
  by (simp add: assign_block_def has_shape_dims has_shape_tabulate)

lemma nth_assign_block:
  "has_shape ny nx G \<Longrightarrow> j < ny \<Longrightarrow> i < nx \<Longrightarrow>
    assign_block a b c d v G ! j ! i =
      (if in_slice a b ny j \<and> in_slice c d nx i then v else G ! j ! i)"
  by (simp add: assign_block_def has_shape_dims nth_tabulate)

section \<open>One pass of the solver\<close>

lemma has_shape_map_Not:
  "has_shape ny nx G \<Longrightarrow> has_shape ny nx (map (map Not) G)"
  by (simp add: has_shape_def list_all_length)

lemma has_shape_variable_mask:
  assumes "has_shape ny nx fixed" and "0 < ny"
  shows "has_shape ny nx (variable_mask fixed)"
  unfolding variable_mask_def Let_def
  by (intro has_shape_assign_col has_shape_assign_row has_shape_map_Not assms)

lemma nth_variable_mask:
  assumes s: "has_shape ny nx fixed" and j: "j < ny" and i: "i < nx"
  shows "variable_mask fixed ! j ! i =
    (\<not> fixed ! j ! i \<and> i \<noteq> 0 \<and> j \<noteq> 0 \<and> j \<noteq> ny - 1 \<and> i \<noteq> nx - 1)"
proof -
  have ny: "0 < ny" using j by simp
  have len: "length fixed = ny" using s by (rule has_shape_length)
  note s0 = has_shape_map_Not [OF s]
  note s1 = has_shape_assign_col [OF s0 ny, of 0 False]
  note s2 = has_shape_assign_row [OF s1 ny, of 0 False]
  note s3 = has_shape_assign_row [OF s2 ny, of "ny - 1" False]
  have n0: "map (map Not) fixed ! j ! i = (\<not> fixed ! j ! i)"
    using len j i has_shape_nth [OF s j] by simp
  show ?thesis
    unfolding variable_mask_def Let_def has_shape_dims [OF s ny, THEN conjunct1]
      has_shape_dims [OF s ny, THEN conjunct2]
    using nth_assign_col [OF s3 j i] nth_assign_row [OF s2 j i] nth_assign_row [OF s1 j i]
      nth_assign_col [OF s0 j i] n0
    by auto
qed

lemma has_shape_jacobi_next:
  "has_shape ny nx T \<Longrightarrow> 0 < ny \<Longrightarrow> has_shape ny nx (jacobi_next fixed var T)"
  by (simp add: jacobi_next_def Let_def has_shape_dims has_shape_tabulate)

lemma nth_jacobi_average:
  assumes "has_shape ny nx T" and "1 \<le> j" and "j < ny - 1" and "1 \<le> i" and "i < nx - 1"
  shows "jacobi_average T ! (j - 1) ! (i - 1) =
    fmul (Fin 0.25)
      (fadd (fadd (fadd (T ! (j - 1) ! i) (T ! (j + 1) ! i)) (T ! j ! (i - 1))) (T ! j ! (i + 1)))"
proof -
  have ny: "0 < ny" using assms(3) by simp
  have a: "j - 1 < ny - 2" and b: "i - 1 < nx - 2" using assms by arith+
  have e: "i - 1 + 1 = i" "j - 1 + 2 = j + 1" "j - 1 + 1 = j" "i - 1 + 2 = i + 1"
    using assms by arith+
  show ?thesis
    unfolding jacobi_average_def has_shape_dims [OF assms(1) ny, THEN conjunct1]
      has_shape_dims [OF assms(1) ny, THEN conjunct2]
    by (simp only: nth_tabulate [OF a b] e)
qed

lemma nth_jacobi_next:
  assumes s: "has_shape ny nx T" and nx: "2 \<le> nx" and j: "j < ny" and i: "i < nx"
  shows "jacobi_next fixed var T ! j ! i =
    (if fixed ! j ! i then T ! j ! i
     else let c = (if i = 0 then 1 else i) in
       if 1 \<le> j \<and> j < ny - 1 \<and> 1 \<le> c \<and> c < nx - 1 \<and> var ! j ! c
       then fmul (Fin 0.25)
         (fadd (fadd (fadd (T ! (j - 1) ! c) (T ! (j + 1) ! c)) (T ! j ! (c - 1))) (T ! j ! (c +
           1)))
       else T ! j ! c)"
proof -
  have ny: "0 < ny" using j by simp
  have one: "1 < nx" using nx by simp
  have m: "tabulate (ny - 2) (nx - 2) (\<lambda>a b. var ! (a + 1) ! (b + 1)) ! (j - 1) ! (c - 1) =
    var ! j ! c"
    if "1 \<le> j" "j < ny - 1" "1 \<le> c" "c < nx - 1" for c
  proof -
    have a: "j - 1 < ny - 2" and b: "c - 1 < nx - 2" using that by arith+
    have e: "j - 1 + 1 = j" "c - 1 + 1 = c" using that by arith+
    show ?thesis by (simp only: nth_tabulate [OF a b] e)
  qed
  define G1 where "G1 = tabulate ny nx
           (\<lambda>j i. if 1 \<le> j \<and> j < ny - 1 \<and> 1 \<le> i \<and> i < nx - 1 \<and>
                tabulate (ny - 2) (nx - 2) (\<lambda>a b. var ! (a + 1) ! (b + 1)) ! (j - 1) ! (i - 1)
                   then jacobi_average T ! (j - 1) ! (i - 1) else T ! j ! i)"
  have step1: "G1 ! j ! c =
      (if 1 \<le> j \<and> j < ny - 1 \<and> 1 \<le> c \<and> c < nx - 1 \<and> var ! j ! c
       then fmul (Fin 0.25)
         (fadd (fadd (fadd (T ! (j - 1) ! c) (T ! (j + 1) ! c)) (T ! j ! (c - 1))) (T ! j ! (c +
           1)))
       else T ! j ! c)" if "c < nx" for c
    unfolding G1_def nth_tabulate [OF j that]
    using m [of c] nth_jacobi_average [OF s, of j c] by auto
  have eq: "jacobi_next fixed var T =
      tabulate ny nx (\<lambda>j i. if fixed ! j ! i then T ! j ! i
        else tabulate ny nx (\<lambda>j i. if i = 0 then G1 ! j ! 1 else G1 ! j ! i) ! j ! i)"
    by (simp only: jacobi_next_def Let_def G1_def has_shape_dims [OF s ny])
  have c: "(if i = 0 then 1 else i) < nx" using i one by simp
  have "jacobi_next fixed var T ! j ! i =
      (if fixed ! j ! i then T ! j ! i else G1 ! j ! (if i = 0 then 1 else i))"
    using j i one by (simp add: eq nth_tabulate)
  then show ?thesis
    unfolding Let_def step1 [OF c] .
qed


lemma np_any_iff:
  "has_shape ny nx M \<Longrightarrow> np_any M \<longleftrightarrow> (\<exists>j i. j < ny \<and> i < nx \<and> M ! j ! i)"
  unfolding np_any_def has_shape_def list_ex_length list_all_length by auto

lemma set_boolean_index:
  assumes "has_shape ny nx A" and "0 < ny"
  shows "set (boolean_index A M) = {A ! j ! i | j i. j < ny \<and> i < nx \<and> M ! j ! i}"
  unfolding boolean_index_def has_shape_dims [OF assms, THEN conjunct1]
    has_shape_dims [OF assms, THEN conjunct2]
  by (auto simp add: Bex_def) blast+

lemma fmax_NaN_left: "fold fmax xs NaN = NaN"
  by (induction xs) (simp_all add: fmax_def)

lemma fle_refl: "x \<noteq> NaN \<Longrightarrow> fle x x"
  by (cases x) simp_all

lemma fle_trans: "fle x y \<Longrightarrow> fle y z \<Longrightarrow> fle x z"
  by (cases x; cases y; cases z) simp_all

lemma fmax_cases:
  assumes "x \<noteq> NaN" and "y \<noteq> NaN"
  shows "fmax x y \<noteq> NaN \<and> (fmax x y = x \<or> fmax x y = y) \<and> fle x (fmax x y) \<and> fle y (fmax x y)"
  using assms by (cases x; cases y) (simp_all add: fmax_def)

lemma fold_fmax_NaN:
  "NaN \<in> set (a # xs) \<Longrightarrow> fold fmax xs a = NaN"
proof (induction xs arbitrary: a)
  case Nil
  then show ?case by simp
next
  case (Cons x xs)
  show ?case
  proof (cases "a = NaN \<or> x = NaN")
    case True
    then have "fmax x a = NaN" by (auto simp add: fmax_def)
    then show ?thesis by (simp add: fmax_NaN_left)
  next
    case False
    with Cons.prems have "NaN \<in> set (fmax x a # xs)" by auto
    then show ?thesis using Cons.IH by simp
  qed
qed

lemma fold_fmax_greatest:
  "NaN \<notin> set (a # xs) \<Longrightarrow>
    fold fmax xs a \<in> set (a # xs) \<and> (\<forall>x \<in> set (a # xs). fle x (fold fmax xs a))"
proof (induction xs arbitrary: a)
  case Nil
  then show ?case by (simp add: fle_refl)
next
  case (Cons x xs)
  from Cons.prems have n: "a \<noteq> NaN" "x \<noteq> NaN" "NaN \<notin> set xs" by auto
  note m = fmax_cases [OF n(2,1)]
  from m n(3) have "NaN \<notin> set (fmax x a # xs)" by auto
  from Cons.IH [OF this] have
    mem: "fold fmax xs (fmax x a) \<in> set (fmax x a # xs)"
    and ge: "\<forall>y \<in> set (fmax x a # xs). fle y (fold fmax xs (fmax x a))"
    by simp_all
  from ge have top: "fle (fmax x a) (fold fmax xs (fmax x a))" by simp
  have "fle a (fold fmax xs (fmax x a))" "fle x (fold fmax xs (fmax x a))"
    using m top by (blast intro: fle_trans)+
  with mem ge m show ?case by auto
qed

lemma np_max_cases:
  assumes "xs \<noteq> []"
  shows "\<exists>m. np_max xs = Inr m \<and>
    (if NaN \<in> set xs then m = NaN else m \<in> set xs \<and> (\<forall>x \<in> set xs. fle x m))"
proof -
  from assms obtain a ys where xs: "xs = a # ys" by (cases xs) auto
  show ?thesis
  proof (cases "NaN \<in> set xs")
    case True
    then show ?thesis unfolding xs using fold_fmax_NaN [of a ys] by simp
  next
    case False
    then show ?thesis unfolding xs using fold_fmax_greatest [of a ys] by simp
  qed
qed

text \<open>
  The metric of a pass: 0 when the variable mask is empty; otherwise NaN when the change
  of some variable cell is NaN, and else the greatest change of a variable cell.
\<close>

lemma convergence_metric_cases:
  assumes sT: "has_shape ny nx T" and sv: "has_shape ny nx var" and ny: "0 < ny"
  shows "\<exists>m. convergence_metric var T_new T = Inr m \<and>
    (\<not> np_any var \<longrightarrow> m = Fin 0) \<and>
    (np_any var \<and>
       (\<exists>j i. j < ny \<and> i < nx \<and> var ! j ! i \<and> fabs (fsub (T_new ! j ! i) (T ! j ! i)) = NaN) \<longrightarrow>
       m = NaN) \<and>
    (np_any var \<and>
       \<not> (\<exists>j i. j < ny \<and> i < nx \<and> var ! j ! i \<and> fabs (fsub (T_new ! j ! i) (T ! j ! i)) = NaN) \<longrightarrow>
       (\<exists>j i. j < ny \<and> i < nx \<and> var ! j ! i \<and> m = fabs (fsub (T_new ! j ! i) (T ! j ! i))) \<and>
       (\<forall>j i. j < ny \<and> i < nx \<and> var ! j ! i \<longrightarrow>
          fle (fabs (fsub (T_new ! j ! i) (T ! j ! i))) m))"
proof (cases "np_any var")
  case False
  then show ?thesis by (simp add: convergence_metric_def)
next
  case True
  define D where "D = tabulate (nrows T) (ncols T) (\<lambda>j i. fabs (fsub (T_new ! j ! i) (T ! j ! i)))"
  define S where "S = {fabs (fsub (T_new ! j ! i) (T ! j ! i)) | j i. j < ny \<and> i < nx \<and>
    var ! j ! i}"
  have sD: "has_shape ny nx D"
    unfolding D_def using has_shape_dims [OF sT ny] by (simp add: has_shape_tabulate)
  have dn: "D ! j ! i = fabs (fsub (T_new ! j ! i) (T ! j ! i))" if "j < ny" "i < nx" for j i
    unfolding D_def has_shape_dims [OF sT ny, THEN conjunct1]
      has_shape_dims [OF sT ny, THEN conjunct2]
    using that by (rule nth_tabulate)
  have set: "set (boolean_index D var) = S"
  proof (intro set_eqI iffI)
    fix x assume "x \<in> set (boolean_index D var)"
    then obtain j i where "x = D ! j ! i" "j < ny" "i < nx" "var ! j ! i"
      unfolding set_boolean_index [OF sD ny] by blast
    then have "x = fabs (fsub (T_new ! j ! i) (T ! j ! i))" "j < ny" "i < nx" "var ! j ! i"
      using dn [of j i] by simp_all
    then show "x \<in> S" unfolding S_def by blast
  next
    fix x assume "x \<in> S"
    then obtain j i where "x =
      fabs (fsub (T_new ! j ! i) (T ! j ! i))" "j < ny" "i < nx" "var ! j ! i"
      unfolding S_def by blast
    then have "x = D ! j ! i" "j < ny" "i < nx" "var ! j ! i"
      using dn [of j i] by simp_all
    then show "x \<in> set (boolean_index D var)"
      unfolding set_boolean_index [OF sD ny] by blast
  qed
  from True obtain j0 i0 where c0: "j0 < ny" "i0 < nx" "var ! j0 ! i0"
    using np_any_iff [OF sv] by blast
  then have ne: "S \<noteq> {}" unfolding S_def by blast
  have nonempty: "boolean_index D var \<noteq> []" using ne set by auto
  obtain m where m: "np_max (boolean_index D var) = Inr m"
    and c: "if NaN \<in> S then m = NaN else m \<in> S \<and> (\<forall>x \<in> S. fle x m)"
    using np_max_cases [OF nonempty] unfolding set by blast
  have metric: "convergence_metric var T_new T = Inr m"
    using True m by (simp add: convergence_metric_def D_def)
  have nan: "NaN \<in> S \<longleftrightarrow>
      (\<exists>j i. j < ny \<and> i < nx \<and> var ! j ! i \<and> fabs (fsub (T_new ! j ! i) (T ! j ! i)) = NaN)"
    unfolding S_def by (auto intro: sym)
  show ?thesis
  proof (cases "NaN \<in> S")
    case n: True
    with c have "m = NaN" by simp
    with metric True n show ?thesis unfolding nan by auto
  next
    case n: False
    with c have mem: "m \<in> S" and ge: "\<forall>x \<in> S. fle x m" by simp_all
    from mem obtain j i where
      w: "j < ny \<and> i < nx \<and> var ! j ! i \<and> m = fabs (fsub (T_new ! j ! i) (T ! j ! i))"
      unfolding S_def by blast
    have u: "fle (fabs (fsub (T_new ! j ! i) (T ! j ! i))) m"
      if "j < ny \<and> i < nx \<and> var ! j ! i" for j i
    proof -
      have "fabs (fsub (T_new ! j ! i) (T ! j ! i)) \<in> S" unfolding S_def using that by blast
      with ge show ?thesis by blast
    qed
    from metric True n w u show ?thesis unfolding nan by auto
  qed
qed

lemma jacobi_sweep_ok:
  assumes sT: "has_shape ny nx T" and sf: "has_shape ny nx fixed" and sv: "has_shape ny nx var"
    and ny: "0 < ny" and nx: "2 \<le> nx"
  shows "\<exists>m. jacobi_sweep fixed var T = Inr (jacobi_next fixed var T, m) \<and>
    convergence_metric var (jacobi_next fixed var T) T = Inr m"
proof -
  obtain m where m: "convergence_metric var (jacobi_next fixed var T) T = Inr m"
    using convergence_metric_cases [OF sT sv ny] by blast
  then show ?thesis
    using nx has_shape_dims [OF sT ny] has_shape_dims [OF sf ny]
    by (simp add: jacobi_sweep_def Let_def)
qed

text \<open>
  C2. One iteration maps the grid \<open>T\<close> to a next grid \<open>T_new\<close> such that (a) every cell of
  the variable mask holds a quarter of the sum of its four orthogonal neighbours in \<open>T\<close>
  (such a cell is interior, so the four neighbours exist); (b) every cell outside column 0
  that is not in the variable mask keeps its value; (c) every cell of column 0 that is not
  fixed holds the new value of its neighbour in column 1.
\<close>

theorem jacobi_iteration_cells:
  assumes sT: "has_shape Ny Nx T" and sf: "has_shape Ny Nx fixed"
    and ny: "1 \<le> Ny" and nx: "2 \<le> Nx" and var: "var = variable_mask fixed"
  shows "\<exists>T_new max_change.
    jacobi_sweep fixed var T = Inr (T_new, max_change) \<and> has_shape Ny Nx T_new \<and>
    (\<forall>j i. j < Ny \<and> i < Nx \<and> var ! j ! i \<longrightarrow>
       1 \<le> j \<and> j + 1 < Ny \<and> 1 \<le> i \<and> i + 1 < Nx \<and>
       T_new ! j ! i = fmul (Fin 0.25)
         (fadd (fadd (fadd (T ! (j - 1) ! i) (T ! (j + 1) ! i)) (T ! j ! (i - 1))) (T ! j ! (i +
           1)))) \<and>
    (\<forall>j i. j < Ny \<and> 1 \<le> i \<and> i < Nx \<and> \<not> var ! j ! i \<longrightarrow> T_new ! j ! i = T ! j ! i) \<and>
    (\<forall>j. j < Ny \<and> \<not> fixed ! j ! 0 \<longrightarrow> T_new ! j ! 0 = T_new ! j ! 1)"
proof -
  have ny0: "0 < Ny" using ny by simp
  have sv: "has_shape Ny Nx var" unfolding var by (rule has_shape_variable_mask [OF sf ny0])
  obtain m where m: "jacobi_sweep fixed var T = Inr (jacobi_next fixed var T, m)"
    using jacobi_sweep_ok [OF sT sf sv ny0 nx] by blast
  have shape: "has_shape Ny Nx (jacobi_next fixed var T)"
    by (rule has_shape_jacobi_next [OF sT ny0])
  have a: "1 \<le> j \<and> j + 1 < Ny \<and> 1 \<le> i \<and> i + 1 < Nx \<and>
      jacobi_next fixed var T ! j ! i =
        fmul (Fin 0.25)
      (fadd (fadd (fadd (T ! (j - 1) ! i) (T ! (j + 1) ! i)) (T ! j ! (i - 1))) (T ! j ! (i + 1)))"
    if "j < Ny \<and> i < Nx \<and> var ! j ! i" for j i
  proof -
    from that have j: "j < Ny" and i: "i < Nx" and v: "var ! j ! i" by simp_all
    from v have f: "\<not> fixed ! j ! i" "i \<noteq> 0" "j \<noteq> 0" "j \<noteq> Ny - 1" "i \<noteq> Nx - 1"
      unfolding var nth_variable_mask [OF sf j i] by simp_all
    with j i have r: "1 \<le> j" "j + 1 < Ny" "1 \<le> i" "i + 1 < Nx"
      and r': "j < Ny - 1" "i < Nx - 1" by arith+
    with f v show ?thesis
      by (simp add: nth_jacobi_next [OF sT nx j i] Let_def)
  qed
  have b: "jacobi_next fixed var T ! j ! i = T ! j ! i"
    if "j < Ny \<and> 1 \<le> i \<and> i < Nx \<and> \<not> var ! j ! i" for j i
  proof -
    from that have j: "j < Ny" and i: "i < Nx" by simp_all
    from that show ?thesis
      by (simp add: nth_jacobi_next [OF sT nx j i] Let_def)
  qed
  have c: "jacobi_next fixed var T ! j ! 0 = jacobi_next fixed var T ! j ! 1"
    if "j < Ny \<and> \<not> fixed ! j ! 0" for j
  proof -
    from that have j: "j < Ny" and nf: "\<not> fixed ! j ! 0" by simp_all
    have z: "0 < Nx" and o: "1 < Nx" using nx by simp_all
    have v1: "var ! j ! 1 \<Longrightarrow> \<not> fixed ! j ! 1"
      unfolding var nth_variable_mask [OF sf j o] by simp
    show ?thesis
      using nf v1 nth_jacobi_next [OF sT nx j z, of fixed var]
        nth_jacobi_next [OF sT nx j o, of fixed var]
      by (auto simp add: Let_def)
  qed
  from m shape a b c show ?thesis by blast
qed


theorem jacobi_iteration_cells_witness:
  "has_shape 3 3 [[Fin 1, Fin 2, Fin 3], [Fin 4, Fin 0, Fin 6], [Fin 7, Fin 8, Fin 9]] \<and>
   has_shape 3 3 [[True, True, True], [False, False, True], [True, True, True]] \<and>
   (\<exists>T_new max_change.
      jacobi_sweep [[True, True, True], [False, False, True], [True, True, True]]
        (variable_mask [[True, True, True], [False, False, True], [True, True, True]])
        [[Fin 1, Fin 2, Fin 3], [Fin 4, Fin 0, Fin 6],
          [Fin 7, Fin 8, Fin 9]] = Inr (T_new, max_change) \<and>
      T_new ! 1 ! 1 = Fin 5 \<and> T_new ! 0 ! 1 = Fin 2 \<and> T_new ! 1 ! 0 = T_new ! 1 ! 1)"
proof -
  define T :: "fval grid" where "T = [[Fin 1, Fin 2, Fin 3], [Fin 4, Fin 0, Fin 6],
    [Fin 7, Fin 8, Fin 9]]"
  define F where "F = [[True, True, True], [False, False, True], [True, True, True]]"
  have sT: "has_shape 3 3 T" by (simp add: T_def has_shape_def)
  have sF: "has_shape 3 3 F" by (simp add: F_def has_shape_def)
  have v11: "variable_mask F ! 1 ! 1"
    using nth_variable_mask [OF sF, of 1 1] by (simp add: F_def)
  have v01: "\<not> variable_mask F ! 0 ! 1"
    using nth_variable_mask [OF sF, of 0 1] by simp
  have f10: "\<not> F ! 1 ! 0" by (simp add: F_def)
  obtain T_new max_change where
    r: "jacobi_sweep F (variable_mask F) T = Inr (T_new, max_change)"
    and a: "\<forall>j i. j < 3 \<and> i < 3 \<and> variable_mask F ! j ! i \<longrightarrow>
       1 \<le> j \<and> j + 1 < 3 \<and> 1 \<le> i \<and> i + 1 < 3 \<and>
       T_new ! j ! i = fmul (Fin 0.25)
         (fadd (fadd (fadd (T ! (j - 1) ! i) (T ! (j + 1) ! i)) (T ! j ! (i - 1))) (T ! j ! (i +
           1)))"
    and b: "\<forall>j i. j < 3 \<and> 1 \<le> i \<and> i < 3 \<and> \<not> variable_mask F ! j ! i \<longrightarrow> T_new ! j ! i = T ! j ! i"
    and c: "\<forall>j. j < 3 \<and> \<not> F ! j ! 0 \<longrightarrow> T_new ! j ! 0 = T_new ! j ! 1"
    using jacobi_iteration_cells [OF sT sF _ _ refl] by auto
  have "T_new ! 1 ! 1 = Fin 5"
    using a [THEN spec, THEN spec, of 1 1] v11 by (simp add: T_def)
  moreover have "T_new ! 0 ! 1 = Fin 2"
    using b [THEN spec, THEN spec, of 0 1] v01 by (simp add: T_def)
  moreover have "T_new ! 1 ! 0 = T_new ! 1 ! 1"
    using c [THEN spec, of 1] f10 by simp
  ultimately show ?thesis
    using r sT sF unfolding T_def F_def by blast
qed

section \<open>The convergence metric\<close>

lemma finite_grid_nth:
  assumes "has_shape ny nx T" and "finite_grid T" and "j < ny" and "i < nx"
  shows "\<exists>a. T ! j ! i = Fin a"
proof -
  have "length T = ny" "length (T ! j) = nx"
    using assms(1,3) by (simp_all add: has_shape_length has_shape_nth)
  then have "case T ! j ! i of Fin a \<Rightarrow> True | _ \<Rightarrow> False"
    using assms(2,3,4) by (simp add: finite_grid_def list_all_length)
  then show ?thesis by (cases "T ! j ! i") simp_all
qed

lemma jacobi_next_finite_cell:
  assumes s: "has_shape ny nx T" and nx: "2 \<le> nx" and fin: "finite_grid T"
    and j: "j < ny" and i: "i < nx"
  shows "\<exists>a. jacobi_next fixed var T ! j ! i = Fin a"
proof -
  define c where "c = (if i = 0 then 1 else i)"
  have c: "c < nx" using i nx by (simp add: c_def)
  note cell = finite_grid_nth [OF s fin]
  have e: "jacobi_next fixed var T ! j ! i =
      (if fixed ! j ! i then T ! j ! i
       else if 1 \<le> j \<and> j < ny - 1 \<and> 1 \<le> c \<and> c < nx - 1 \<and> var ! j ! c
         then fmul (Fin 0.25)
           (fadd (fadd (fadd (T ! (j - 1) ! c) (T ! (j + 1) ! c)) (T ! j ! (c - 1))) (T ! j ! (c +
             1)))
         else T ! j ! c)"
    unfolding nth_jacobi_next [OF s nx j i] Let_def c_def by (rule refl)
  show ?thesis
  proof (cases "\<not> fixed ! j ! i \<and> 1 \<le> j \<and> j < ny - 1 \<and> 1 \<le> c \<and> c < nx - 1 \<and> var ! j ! c")
    case True
    then have r: "j - 1 < ny" "j + 1 < ny" "c - 1 < nx" "c + 1 < nx" by arith+
    obtain a1 a2 a3 a4 where "T ! (j - 1) ! c = Fin a1" "T ! (j + 1) ! c = Fin a2"
      "T ! j ! (c - 1) = Fin a3" "T ! j ! (c + 1) = Fin a4"
      using cell [OF r(1) c] cell [OF r(2) c] cell [OF j r(3)] cell [OF j r(4)] by blast
    with True have "jacobi_next fixed var T ! j ! i = Fin (0.25 * (a1 + a2 + a3 + a4))"
      unfolding e by simp
    then show ?thesis by blast
  next
    case False
    then have "jacobi_next fixed var T ! j ! i = T ! j ! i \<or>
        jacobi_next fixed var T ! j ! i = T ! j ! c"
      unfolding e by auto
    then show ?thesis using cell [OF j i] cell [OF j c] by auto
  qed
qed

text \<open>
  C5 says that \<open>max_change\<close> is 0 exactly when the variable mask has no true cell. On a
  uniform grid the mask has a true cell (the centre) and the first pass still yields
  \<open>max_change = 0\<close>, since no cell changes.
\<close>

theorem max_change_zero_counterexample:
  "np_any (variable_mask [[True, True, True], [False, False, True], [True, True, True]]) \<and>
   jacobi_sweep [[True, True, True], [False, False, True], [True, True, True]]
     (variable_mask [[True, True, True], [False, False, True], [True, True, True]])
     [[Fin 1, Fin 1, Fin 1], [Fin 1, Fin 1, Fin 1], [Fin 1, Fin 1, Fin 1]] =
     Inr ([[Fin 1, Fin 1, Fin 1], [Fin 1, Fin 1, Fin 1], [Fin 1, Fin 1, Fin 1]], Fin 0)"
  by code_simp

text \<open>
  Nor is the metric always at least 0. For \<open>L = -4\<close> the builder's wall is infinite above
  the bath; the first pass makes the interior infinite, and the second pass computes
  \<open>inf - inf\<close>: its metric is NaN, which is neither below \<open>delta\<close> nor at least 0.
\<close>

lemma max_change_nan_example:
  "build_problem_half 5 (- 4) 3 100 32 212 90 None (4 / 9) =
     Inr ([[Fin 32, Fin 32, PInf], [Fin 90, Fin 90, PInf], [Fin 90, Fin 90, PInf],
           [Fin 90, Fin 90, PInf], [Fin 100, Fin 100, Fin 32]],
          [[True, True, True], [False, False, True], [False, False, True],
           [False, False, True], [True, True, True]], - 1, - 1, - 4) \<and>
   jacobi_laplace_half_with_snapshots
     [[Fin 32, Fin 32, PInf], [Fin 90, Fin 90, PInf], [Fin 90, Fin 90, PInf],
      [Fin 90, Fin 90, PInf], [Fin 100, Fin 100, Fin 32]]
     [[True, True, True], [False, False, True], [False, False, True],
      [False, False, True], [True, True, True]] (- 1) (- 1) (- 4) (1 / 1000) 2 500 500 =
     Inr ([[Fin 32, Fin 32, PInf], [PInf, PInf, PInf], [PInf, PInf, PInf],
           [PInf, PInf, PInf], [Fin 100, Fin 100, Fin 32]], 2, NaN) \<and>
   \<not> fle (Fin 0) NaN"
  by code_simp

text \<open>
  C5, amended. The metric of a pass is 0 when the variable mask has no true cell. On a
  grid all of whose cells are finite the metric is at least 0, and it is 0 exactly when no
  cell of the variable mask changed its value in that pass.
\<close>

theorem max_change_nonneg:
  assumes sT: "has_shape Ny Nx T" and sv: "has_shape Ny Nx var" and ny: "1 \<le> Ny"
    and sweep: "jacobi_sweep fixed var T = Inr (T_new, max_change)"
  shows "(\<not> np_any var \<longrightarrow> max_change = Fin 0) \<and>
    (finite_grid T \<longrightarrow>
       fle (Fin 0) max_change \<and>
       (max_change = Fin 0 \<longleftrightarrow>
          (\<forall>j i. j < Ny \<and> i < Nx \<and> var ! j ! i \<longrightarrow> T_new ! j ! i = T ! j ! i)))"
proof -
  have ny0: "0 < Ny" using ny by simp
  have nx: "2 \<le> Nx"
    using sweep has_shape_dims [OF sT ny0]
    by (auto simp add: jacobi_sweep_def split: if_splits)
  have tn: "T_new = jacobi_next fixed var T"
    and m: "convergence_metric var T_new T = Inr max_change"
    using sweep by (auto simp add: jacobi_sweep_def Let_def split: if_splits sum.splits)
  note c = convergence_metric_cases [OF sT sv ny0, of T_new]
  have empty: "max_change = Fin 0" if "\<not> np_any var"
    using c m that by auto
  have fin: "fle (Fin 0) max_change \<and>
       (max_change = Fin 0 \<longleftrightarrow>
          (\<forall>j i. j < Ny \<and> i < Nx \<and> var ! j ! i \<longrightarrow> T_new ! j ! i = T ! j ! i))"
    if f: "finite_grid T"
  proof (cases "np_any var")
    case False
    then have "\<not> (j < Ny \<and> i < Nx \<and> var ! j ! i)" for j i
      using np_any_iff [OF sv] by blast
    with empty [OF False] show ?thesis by auto
  next
    case True
    have d: "\<exists>a b. T_new ! j ! i = Fin a \<and> T ! j ! i = Fin b \<and>
        fabs (fsub (T_new ! j ! i) (T ! j ! i)) = Fin \<bar>a - b\<bar>"
      if jj: "j < Ny" and ii: "i < Nx" for j i
    proof -
      obtain a where a: "T_new ! j ! i = Fin a"
        unfolding tn using jacobi_next_finite_cell [OF sT nx f jj ii] by blast
      obtain b where b: "T ! j ! i = Fin b"
        using finite_grid_nth [OF sT f jj ii] by blast
      show ?thesis using a b by (simp add: fsub_def)
    qed
    have nonan: "\<not> (\<exists>j i. j < Ny \<and> i < Nx \<and> var ! j ! i \<and>
        fabs (fsub (T_new ! j ! i) (T ! j ! i)) = NaN)"
      using d by fastforce
    from c obtain m' where cm: "convergence_metric var T_new T = Inr m'"
      and cf: "np_any var \<and>
       \<not> (\<exists>j i. j < Ny \<and> i < Nx \<and> var ! j ! i \<and> fabs (fsub (T_new ! j ! i) (T ! j ! i)) = NaN) \<longrightarrow>
       (\<exists>j i. j < Ny \<and> i < Nx \<and> var ! j ! i \<and> m' = fabs (fsub (T_new ! j ! i) (T ! j ! i))) \<and>
       (\<forall>j i. j < Ny \<and> i < Nx \<and> var ! j ! i \<longrightarrow>
          fle (fabs (fsub (T_new ! j ! i) (T ! j ! i))) m')"
      by blast
    have mm: "m' = max_change" using cm m by simp
    from cf True nonan obtain j0 i0 where
      w: "j0 < Ny" "i0 < Nx" "var ! j0 ! i0"
        "max_change = fabs (fsub (T_new ! j0 ! i0) (T ! j0 ! i0))"
      and u: "\<forall>j i. j < Ny \<and> i < Nx \<and> var ! j ! i \<longrightarrow>
               fle (fabs (fsub (T_new ! j ! i) (T ! j ! i))) max_change"
      unfolding mm by blast
    from d [OF w(1,2)] w(4) obtain a0 b0 where
      m0: "T_new ! j0 ! i0 = Fin a0" "T ! j0 ! i0 = Fin b0" "max_change = Fin \<bar>a0 - b0\<bar>"
      by auto
    have nonneg: "fle (Fin 0) max_change" unfolding m0(3) by simp
    have same: "T_new ! j ! i = T ! j ! i"
      if z: "max_change = Fin 0" and v: "j < Ny \<and> i < Nx \<and> var ! j ! i" for j i
    proof -
      from v d [of j i] obtain a b where
        ab: "T_new ! j ! i = Fin a" "T ! j ! i = Fin b"
          "fabs (fsub (T_new ! j ! i) (T ! j ! i)) = Fin \<bar>a - b\<bar>"
        by blast
      from u v have "fle (fabs (fsub (T_new ! j ! i) (T ! j ! i))) max_change" by blast
      then have "\<bar>a - b\<bar> \<le> 0" unfolding ab(3) z by simp
      then show ?thesis using ab by simp
    qed
    have zero: "max_change = Fin 0"
      if "\<forall>j i. j < Ny \<and> i < Nx \<and> var ! j ! i \<longrightarrow> T_new ! j ! i = T ! j ! i"
    proof -
      from that w have "T_new ! j0 ! i0 = T ! j0 ! i0" by blast
      then show ?thesis using m0 by simp
    qed
    from nonneg same zero show ?thesis by blast
  qed
  from empty fin show ?thesis by blast
qed

theorem max_change_nonneg_witness:
  "has_shape 3 3 [[Fin 1, Fin 2, Fin 3], [Fin 4, Fin 0, Fin 6], [Fin 7, Fin 8, Fin 9]] \<and>
   has_shape 3 3 (variable_mask [[True, True, True], [False, False, True], [True, True, True]]) \<and>
   np_any (variable_mask [[True, True, True], [False, False, True], [True, True, True]]) \<and>
   finite_grid [[Fin 1, Fin 2, Fin 3], [Fin 4, Fin 0, Fin 6], [Fin 7, Fin 8, Fin 9]] \<and>
   jacobi_sweep [[True, True, True], [False, False, True], [True, True, True]]
     (variable_mask [[True, True, True], [False, False, True], [True, True, True]])
     [[Fin 1, Fin 2, Fin 3], [Fin 4, Fin 0, Fin 6], [Fin 7, Fin 8, Fin 9]] =
     Inr ([[Fin 1, Fin 2, Fin 3], [Fin 5, Fin 5, Fin 6], [Fin 7, Fin 8, Fin 9]], Fin 5) \<and>
   fle (Fin 0) (Fin 5)"
proof -
  have sT: "has_shape 3 3 [[Fin 1, Fin 2, Fin 3], [Fin 4, Fin 0, Fin 6], [Fin 7, Fin 8, Fin 9]]"
    by (simp add: has_shape_def)
  have sv: "has_shape 3 3 (variable_mask [[True, True, True], [False, False, True],
    [True, True, True]])"
    by code_simp
  have any: "np_any (variable_mask [[True, True, True], [False, False, True], [True, True, True]])"
    by code_simp
  have fin: "finite_grid [[Fin 1, Fin 2, Fin 3], [Fin 4, Fin 0, Fin 6], [Fin 7, Fin 8, Fin 9]]"
    by (simp add: finite_grid_def)
  have n: "1 \<le> (3::nat)" by simp
  have sweep: "jacobi_sweep [[True, True, True], [False, False, True], [True, True, True]]
     (variable_mask [[True, True, True], [False, False, True], [True, True, True]])
     [[Fin 1, Fin 2, Fin 3], [Fin 4, Fin 0, Fin 6], [Fin 7, Fin 8, Fin 9]] =
     Inr ([[Fin 1, Fin 2, Fin 3], [Fin 5, Fin 5, Fin 6], [Fin 7, Fin 8, Fin 9]], Fin 5)"
    by code_simp
  from max_change_nonneg [OF sT sv n sweep] fin have "fle (Fin 0) (Fin 5)" by blast
  with sT sv any fin sweep show ?thesis by blast
qed

section \<open>The solver loop\<close>

lemma export_mirror_ok:
  assumes s: "has_shape ny nx T" and ny: "2 \<le> ny" and nx: "2 \<le> nx"
  shows "\<exists>records. export_structured_csv_full (mirror_full_from_half T) L = Inr records"
proof -
  have n1: "1 \<le> nx" and n0: "0 < ny" using nx ny by simp_all
  note d = has_shape_dims [OF has_shape_mirror [OF s n1] n0]
  have "int (2 * nx - 1) - 1 \<noteq> 0" "int ny - 1 \<noteq> 0" using nx ny by auto
  then show ?thesis
    by (simp add: export_structured_csv_full_def Let_def d py_div_def)
qed

lemma grid_after_0: "grid_after fixed var 0 T = T"
  by (simp add: grid_after_def)

lemma grid_after_Suc:
  "grid_after fixed var (Suc k) T = jacobi_next fixed var (grid_after fixed var k T)"
  by (simp add: grid_after_def)

lemma grid_after_Suc_shift:
  "grid_after fixed var (Suc k) T = grid_after fixed var k (jacobi_next fixed var T)"
  by (simp add: grid_after_def funpow_swap1)

lemma has_shape_grid_after:
  "has_shape ny nx T \<Longrightarrow> 0 < ny \<Longrightarrow> has_shape ny nx (grid_after fixed var k T)"
  by (induction k) (simp_all add: grid_after_0 grid_after_Suc has_shape_jacobi_next)

lemma grid_after_fixed:
  assumes s: "has_shape ny nx T" and nx: "2 \<le> nx" and j: "j < ny" and i: "i < nx"
    and f: "fixed ! j ! i"
  shows "grid_after fixed var k T ! j ! i = T ! j ! i"
proof (induction k)
  case 0
  show ?case by (simp add: grid_after_0)
next
  case (Suc k)
  have ny: "0 < ny" using j by simp
  have "jacobi_next fixed var (grid_after fixed var k T) ! j ! i = grid_after fixed var k T ! j ! i"
    using f by (simp add: nth_jacobi_next [OF has_shape_grid_after [OF s ny] nx j i])
  with Suc show ?case by (simp add: grid_after_Suc)
qed

lemma jacobi_loop_run:
  assumes sf: "has_shape ny nx fixed" and sv: "has_shape ny nx var"
    and ny: "2 \<le> ny" and nx: "2 \<le> nx"
    and re: "report_every \<noteq> 0" and se: "snap_every \<noteq> 0"
  shows "has_shape ny nx T \<Longrightarrow>
    \<exists>n m. 1 \<le> n \<and>
      jacobi_loop fixed var L delta max_iters report_every snap_every T epochs =
        Inr (grid_after fixed var n T, epochs + int n, m) \<and>
      jacobi_sweep fixed var (grid_after fixed var (n - 1) T) = Inr (grid_after fixed var n T, m) \<and>
      (flt m (Fin delta) \<or> max_iters \<le> epochs + int n) \<and>
      (\<forall>k. 1 \<le> k \<and> k < n \<longrightarrow> epochs + int k < max_iters \<and>
         (\<exists>mk. jacobi_sweep fixed var (grid_after fixed var (k - 1) T) =
                  Inr (grid_after fixed var k T, mk) \<and> \<not> flt mk (Fin delta)))"
proof (induction "nat (max_iters - epochs)" arbitrary: T epochs rule: less_induct)
  case less
  have ny0: "0 < ny" using ny by simp
  note sT = less.prems
  obtain m1 where sw: "jacobi_sweep fixed var T = Inr (jacobi_next fixed var T, m1)"
    using jacobi_sweep_ok [OF sT sf sv ny0 nx] by blast
  have s1: "has_shape ny nx (jacobi_next fixed var T)"
    by (rule has_shape_jacobi_next [OF sT ny0])
  obtain records where ex: "export_structured_csv_full
      (mirror_full_from_half (jacobi_next fixed var T)) L = Inr records"
    using export_mirror_ok [OF s1 ny nx] by blast
  have one: "grid_after fixed var (Suc 0) T = jacobi_next fixed var T"
    by (simp add: grid_after_def)
  show ?case
  proof (cases "flt m1 (Fin delta) \<or> max_iters \<le> epochs + 1")
    case True
    have "jacobi_loop fixed var L delta max_iters report_every snap_every T epochs =
        Inr (jacobi_next fixed var T, epochs + 1, m1)"
      using sw ex re se True by (subst jacobi_loop.simps) simp
    then have "1 \<le> (1::nat) \<and>
      jacobi_loop fixed var L delta max_iters report_every snap_every T epochs =
        Inr (grid_after fixed var 1 T, epochs + int 1, m1) \<and>
      jacobi_sweep fixed var (grid_after fixed var (1 - 1) T) = Inr (grid_after fixed var 1 T, m1) \<and>
      (flt m1 (Fin delta) \<or> max_iters \<le> epochs + int 1) \<and>
      (\<forall>k. 1 \<le> k \<and> k < (1::nat) \<longrightarrow> epochs + int k < max_iters \<and>
         (\<exists>mk. jacobi_sweep fixed var (grid_after fixed var (k - 1) T) =
                  Inr (grid_after fixed var k T, mk) \<and> \<not> flt mk (Fin delta)))"
      using True sw by (simp add: one grid_after_0)
    then show ?thesis by blast
  next
    case False
    then have lt: "nat (max_iters - (epochs + 1)) < nat (max_iters - epochs)" by simp
    have rec: "jacobi_loop fixed var L delta max_iters report_every snap_every T epochs =
        jacobi_loop fixed var L delta max_iters report_every snap_every
          (jacobi_next fixed var T) (epochs + 1)"
      using sw ex re se False by (subst jacobi_loop.simps) simp
    obtain n m where ih: "1 \<le> n"
      "jacobi_loop fixed var L delta max_iters report_every snap_every
          (jacobi_next fixed var T) (epochs + 1) =
        Inr (grid_after fixed var n (jacobi_next fixed var T), epochs + 1 + int n, m)"
      "jacobi_sweep fixed var (grid_after fixed var (n - 1) (jacobi_next fixed var T)) =
        Inr (grid_after fixed var n (jacobi_next fixed var T), m)"
      "flt m (Fin delta) \<or> max_iters \<le> epochs + 1 + int n"
      "\<forall>k. 1 \<le> k \<and> k < n \<longrightarrow> epochs + 1 + int k < max_iters \<and>
         (\<exists>mk. jacobi_sweep fixed var (grid_after fixed var (k - 1) (jacobi_next fixed var T)) =
                  Inr (grid_after fixed var k (jacobi_next fixed var T), mk) \<and>
                    \<not> flt mk (Fin delta))"
      using less.hyps [OF lt s1] by blast
    have shift: "grid_after fixed var k (jacobi_next fixed var T) =
      grid_after fixed var (Suc k) T" for k
      by (simp add: grid_after_Suc_shift)
    have a: "jacobi_loop fixed var L delta max_iters report_every snap_every T epochs =
        Inr (grid_after fixed var (Suc n) T, epochs + int (Suc n), m)"
      using rec ih(2) by (simp add: shift add.assoc)
    have b: "jacobi_sweep fixed var (grid_after fixed var (Suc n - 1) T) =
        Inr (grid_after fixed var (Suc n) T, m)"
    proof -
      have "Suc (n - 1) = n" using ih(1) by simp
      then show ?thesis using ih(3) by (simp add: shift)
    qed
    have c: "flt m (Fin delta) \<or> max_iters \<le> epochs + int (Suc n)"
      using ih(4) by (simp add: add.assoc)
    have d: "epochs + int k < max_iters \<and>
         (\<exists>mk. jacobi_sweep fixed var (grid_after fixed var (k - 1) T) =
                  Inr (grid_after fixed var k T, mk) \<and> \<not> flt mk (Fin delta))"
      if k: "1 \<le> k \<and> k < Suc n" for k
    proof (cases "k = 1")
      case True
      then show ?thesis using False sw by (auto simp add: one grid_after_0)
    next
      case False
      then obtain k' where k': "k = Suc k'" "1 \<le> k'" "k' < n" "Suc (k' - 1) = k'"
        using k by (cases k) auto
      from ih(5) [THEN spec, of k'] k' show ?thesis
        by (simp add: shift add.assoc)
    qed
    from ih(1) a b c d show ?thesis
      by (intro exI [of _ "Suc n"] exI [of _ m]) simp
  qed
qed


text \<open>
  C4. For every \<open>max_iters \<ge> 1\<close> (on a grid and a mask of one shape with at least two
  rows and two columns, and nonzero report and snapshot cadences), the solver returns
  normally a triple: the grid after \<open>n\<close> passes, the epoch count \<open>n\<close> and the metric of
  pass \<open>n\<close>, where \<open>1 \<le> n \<le> max_iters\<close>. It stops before \<open>max_iters\<close> only with a
  metric below \<open>delta\<close>, and no earlier pass had a metric below \<open>delta\<close>. Reaching the cap
  is a normal return as well.
\<close>

theorem solver_terminates:
  assumes sT: "has_shape Ny Nx T" and sf: "has_shape Ny Nx fixed"
    and ny: "2 \<le> Ny" and nx: "2 \<le> Nx"
    and re: "report_every \<noteq> 0" and se: "snap_every \<noteq> 0"
    and mi: "1 \<le> max_iters" and var: "var = variable_mask fixed"
  shows "\<exists>n max_change. 1 \<le> n \<and> int n \<le> max_iters \<and>
    jacobi_laplace_half_with_snapshots T fixed h_y h_x L delta max_iters report_every snap_every =
      Inr (grid_after fixed var n T, int n, max_change) \<and>
    jacobi_sweep fixed var (grid_after fixed var (n - 1) T) =
      Inr (grid_after fixed var n T, max_change) \<and>
    (int n < max_iters \<longrightarrow> flt max_change (Fin delta)) \<and>
    (\<forall>k. 1 \<le> k \<and> k < n \<longrightarrow>
       (\<exists>mk. jacobi_sweep fixed var (grid_after fixed var (k - 1) T) =
                Inr (grid_after fixed var k T, mk) \<and> \<not> flt mk (Fin delta)))"
proof -
  have ny0: "0 < Ny" using ny by simp
  have sv: "has_shape Ny Nx var" unfolding var by (rule has_shape_variable_mask [OF sf ny0])
  obtain n m where run: "1 \<le> n"
    "jacobi_loop fixed var L delta max_iters report_every snap_every T 0 =
        Inr (grid_after fixed var n T, 0 + int n, m)"
    "jacobi_sweep fixed var (grid_after fixed var (n - 1) T) = Inr (grid_after fixed var n T, m)"
    "flt m (Fin delta) \<or> max_iters \<le> 0 + int n"
    "\<forall>k. 1 \<le> k \<and> k < n \<longrightarrow> 0 + int k < max_iters \<and>
         (\<exists>mk. jacobi_sweep fixed var (grid_after fixed var (k - 1) T) =
                  Inr (grid_after fixed var k T, mk) \<and> \<not> flt mk (Fin delta))"
    using jacobi_loop_run [OF sf sv ny nx re se sT, of L delta max_iters 0] by blast
  have solver: "jacobi_laplace_half_with_snapshots T fixed h_y h_x L delta max_iters
      report_every snap_every = Inr (grid_after fixed var n T, int n, m)"
    using run(2) ny nx has_shape_dims [OF sf ny0]
    by (simp add: jacobi_laplace_half_with_snapshots_def var)
  have bound: "int n \<le> max_iters"
  proof (cases "n = 1")
    case True
    then show ?thesis using mi by simp
  next
    case False
    then have "1 \<le> n - 1 \<and> n - 1 < n" using run(1) by arith
    then have "0 + int (n - 1) < max_iters" using run(5) by blast
    then show ?thesis by simp
  qed
  have early: "int n < max_iters \<longrightarrow> flt m (Fin delta)" using run(4) by auto
  from run(1) bound solver run(3) early run(5) show ?thesis by blast
qed

theorem solver_terminates_witness:
  "has_shape 3 3 [[Fin 1, Fin 2, Fin 3], [Fin 4, Fin 0, Fin 6], [Fin 7, Fin 8, Fin 9]] \<and>
   has_shape 3 3 [[True, True, True], [False, False, True], [True, True, True]] \<and>
   jacobi_laplace_half_with_snapshots [[Fin 1, Fin 2, Fin 3], [Fin 4, Fin 0, Fin 6],
     [Fin 7, Fin 8, Fin 9]]
     [[True, True, True], [False, False, True], [True, True, True]] 1 1 2 1 3 500 500 =
     Inr ([[Fin 1, Fin 2, Fin 3], [Fin (21 / 4), Fin (21 / 4), Fin 6], [Fin 7, Fin 8, Fin 9]], 2,
       Fin (1 / 4)) \<and>
   (\<exists>n max_change. 1 \<le> n \<and> int n \<le> 3 \<and>
      jacobi_laplace_half_with_snapshots [[Fin 1, Fin 2, Fin 3], [Fin 4, Fin 0, Fin 6],
        [Fin 7, Fin 8, Fin 9]]
        [[True, True, True], [False, False, True], [True, True, True]] 1 1 2 1 3 500 500 =
      Inr (grid_after [[True, True, True], [False, False, True], [True, True, True]]
             (variable_mask [[True, True, True], [False, False, True], [True, True, True]]) n
             [[Fin 1, Fin 2, Fin 3], [Fin 4, Fin 0, Fin 6],
               [Fin 7, Fin 8, Fin 9]], int n, max_change))"
proof -
  have sT: "has_shape 3 3 [[Fin 1, Fin 2, Fin 3], [Fin 4, Fin 0, Fin 6], [Fin 7, Fin 8, Fin 9]]"
    by (simp add: has_shape_def)
  have sF: "has_shape 3 3 [[True, True, True], [False, False, True], [True, True, True]]"
    by (simp add: has_shape_def)
  have run: "jacobi_laplace_half_with_snapshots [[Fin 1, Fin 2, Fin 3], [Fin 4, Fin 0, Fin 6],
    [Fin 7, Fin 8, Fin 9]]
     [[True, True, True], [False, False, True], [True, True, True]] 1 1 2 1 3 500 500 =
     Inr ([[Fin 1, Fin 2, Fin 3], [Fin (21 / 4), Fin (21 / 4), Fin 6], [Fin 7, Fin 8, Fin 9]], 2,
       Fin (1 / 4))"
    by code_simp
  have "\<exists>n max_change. 1 \<le> n \<and> int n \<le> 3 \<and>
      jacobi_laplace_half_with_snapshots [[Fin 1, Fin 2, Fin 3], [Fin 4, Fin 0, Fin 6],
        [Fin 7, Fin 8, Fin 9]]
        [[True, True, True], [False, False, True], [True, True, True]] 1 1 2 1 3 500 500 =
      Inr (grid_after [[True, True, True], [False, False, True], [True, True, True]]
             (variable_mask [[True, True, True], [False, False, True], [True, True, True]]) n
             [[Fin 1, Fin 2, Fin 3], [Fin 4, Fin 0, Fin 6],
               [Fin 7, Fin 8, Fin 9]], int n, max_change)"
    using solver_terminates [OF sT sF _ _ _ _ _ refl, of 500 500 3 1 1 2 1] by fastforce
  with sT sF run show ?thesis by blast
qed

section \<open>The builder's output\<close>

lemma has_shape_boundary_problem:
  assumes "0 < Ny"
  shows "has_shape Ny Nx (fst (boundary_problem Ny Nx L T_top T_bottom init_guess bh bf))"
    and "has_shape Ny Nx (snd (boundary_problem Ny Nx L T_top T_bottom init_guess bh bf))"
  unfolding boundary_problem_def Let_def fst_conv snd_conv
  by (intro has_shape_assign_col_values has_shape_assign_col has_shape_assign_row
      has_shape_np_full assms)+

lemma fl64_0: "fl64 0 = 0"
  by (simp add: fl64_def)

lemma py_div_int_Inr:
  assumes "py_div_int a k = Inr q"
  shows "k \<noteq> 0 \<and> fl64 (of_int k) \<noteq> 0 \<and> q = fl64 (a / fl64 (of_int k))"
  using assms
  by (auto simp add: py_div_int_def py_float_of_int_def py_div_def fl64_0 split: if_splits)

lemma inner_square_indices_Inr:
  assumes "inner_square_indices L L_inner h_y h_x = Inr (j_low, j_high, i_left, i_right)"
  shows "h_y \<noteq> 0 \<and> h_x \<noteq> 0 \<and>
    j_low = py_round (fl64 (fl64 (fl64 (L / 2) - fl64 (L_inner / 2)) / h_y)) \<and>
    j_high = py_round (fl64 (fl64 (fl64 (L / 2) + fl64 (L_inner / 2)) / h_y)) \<and>
    i_left = 0 \<and> i_right = py_round (fl64 (fl64 (L_inner / 2) / h_x))"
  using assms
  by (auto simp add: inner_square_indices_def Let_def py_div_def split: if_splits)

lemma build_problem_half_Inr:
  assumes "build_problem_half N L L_inner T_top T_bottom T_inner init_guess bh bf =
    Inr (T0, fixed, h_y, h_x, L')"
  shows "2 \<le> N \<and> N * (N div 2 + 1) * 8 < 2 ^ 63 \<and> L' = L \<and>
    h_y = fl64 (L / fl64 (of_int (N - 1))) \<and>
    h_x = fl64 (fl64 (L / 2) / fl64 (of_int (N div 2))) \<and>
    (\<exists>j_low j_high i_right.
       inner_square_indices L L_inner h_y h_x = Inr (j_low, j_high, 0, i_right) \<and>
       T0 = assign_block j_low (j_high + 1) 0 (i_right + 1) (Fin T_inner)
         (fst (boundary_problem (nat N) (nat (N div 2 + 1)) L T_top T_bottom init_guess bh bf)) \<and>
       fixed = assign_block j_low (j_high + 1) 0 (i_right + 1) True
         (snd (boundary_problem (nat N) (nat (N div 2 + 1)) L T_top T_bottom init_guess bh bf)))"
proof -
  obtain q where hy: "py_div_int L (N - 1) = Inr q"
    using assms by (auto simp add: build_problem_half_def Let_def split: sum.splits)
  note py = py_div_int_Inr [OF hy]
  from py have n1: "N \<noteq> 1" by simp
  obtain r where hx: "(if 1 < N div 2 + 1 then py_div_int (fl64 (L / 2)) (N div 2 + 1 - 1)
      else Inr 0) = Inr r"
    using assms unfolding build_problem_half_def Let_def hy
    by (auto split: sum.splits)
  have rest: "(if N < 0 \<or> N div 2 + 1 < 0 \<or> 2 ^ 63 \<le> N * (N div 2 + 1) * 8 then Inl ValueError
     else if N = 0 then Inl IndexError
     else
       let (T, fixed) = boundary_problem (nat N) (nat (N div 2 + 1)) L T_top T_bottom init_guess
             bh bf in
       case inner_square_indices L L_inner q r of Inl e \<Rightarrow> Inl e
       | Inr (j_low, j_high, i_left, i_right) \<Rightarrow>
           Inr (assign_block j_low (j_high + 1) i_left (i_right + 1) (Fin T_inner) T,
                assign_block j_low (j_high + 1) i_left (i_right + 1) True fixed,
                q, r, L)) = Inr (T0, fixed, h_y, h_x, L')"
    using assms unfolding build_problem_half_def Let_def hy hx by simp
  from rest have n0: "0 < N" and size: "N * (N div 2 + 1) * 8 < 2 ^ 63"
    by (auto split: if_splits)
  with n1 have n2: "2 \<le> N" by simp
  then have "1 < N div 2 + 1" by simp
  with hx have "py_div_int (fl64 (L / 2)) (N div 2) = Inr r" by simp
  note px = py_div_int_Inr [OF this]
  have c1: "(N < 0 \<or> N div 2 + 1 < 0 \<or> 2 ^ 63 \<le> N * (N div 2 + 1) * 8) = False"
    and c2: "(N = 0) = False"
    using n0 size by auto
  have rest': "(case inner_square_indices L L_inner q r of Inl e \<Rightarrow> Inl e
       | Inr (j_low, j_high, i_left, i_right) \<Rightarrow>
           Inr (assign_block j_low (j_high + 1) i_left (i_right + 1) (Fin T_inner)
                  (fst (boundary_problem (nat N) (nat (N div 2 + 1)) L T_top T_bottom init_guess
                     bh bf)),
                assign_block j_low (j_high + 1) i_left (i_right + 1) True
                  (snd (boundary_problem (nat N) (nat (N div 2 + 1)) L T_top T_bottom init_guess
                     bh bf)),
                q, r, L)) = Inr (T0, fixed, h_y, h_x, L')"
    using rest by (simp only: c1 c2 if_False Let_def split_beta)
  obtain j_low j_high i_left i_right where
    ix: "inner_square_indices L L_inner q r = Inr (j_low, j_high, i_left, i_right)"
    using rest' by (cases "inner_square_indices L L_inner q r") auto
  have res: "T0 = assign_block j_low (j_high + 1) i_left (i_right + 1) (Fin T_inner)
         (fst (boundary_problem (nat N) (nat (N div 2 + 1)) L T_top T_bottom init_guess bh bf))"
      "fixed = assign_block j_low (j_high + 1) i_left (i_right + 1) True
         (snd (boundary_problem (nat N) (nat (N div 2 + 1)) L T_top T_bottom init_guess bh bf))"
      "h_y = q" "h_x = r" "L' = L"
    using rest' unfolding ix by auto
  from inner_square_indices_Inr [OF ix] have il: "i_left = 0" by simp
  from n2 size res py px ix il show ?thesis by auto
qed

lemma build_problem_half_shape:
  assumes "build_problem_half N L L_inner T_top T_bottom T_inner init_guess bh bf =
    Inr (T0, fixed, h_y, h_x, L')"
  shows "has_shape (nat N) (nat (N div 2 + 1)) T0"
    and "has_shape (nat N) (nat (N div 2 + 1)) fixed"
    and "2 \<le> nat N" and "2 \<le> nat (N div 2 + 1)"
proof -
  from build_problem_half_Inr [OF assms] obtain j_low j_high i_right where
    n: "2 \<le> N"
    and t: "T0 = assign_block j_low (j_high + 1) 0 (i_right + 1) (Fin T_inner)
         (fst (boundary_problem (nat N) (nat (N div 2 + 1)) L T_top T_bottom init_guess bh bf))"
    and f: "fixed = assign_block j_low (j_high + 1) 0 (i_right + 1) True
         (snd (boundary_problem (nat N) (nat (N div 2 + 1)) L T_top T_bottom init_guess bh bf))"
    by blast
  have ny: "0 < nat N" using n by simp
  show "has_shape (nat N) (nat (N div 2 + 1)) T0"
    unfolding t by (rule has_shape_assign_block [OF has_shape_boundary_problem(1) [OF ny] ny])
  show "has_shape (nat N) (nat (N div 2 + 1)) fixed"
    unfolding f by (rule has_shape_assign_block [OF has_shape_boundary_problem(2) [OF ny] ny])
  show "2 \<le> nat N" using n by simp
  show "2 \<le> nat (N div 2 + 1)" using n by simp
qed

lemma solver_result:
  assumes sT: "has_shape Ny Nx T" and sf: "has_shape Ny Nx fixed"
    and ny: "2 \<le> Ny" and nx: "2 \<le> Nx"
    and re: "report_every \<noteq> 0" and se: "snap_every \<noteq> 0"
  shows "\<exists>n m. 1 \<le> n \<and>
    jacobi_laplace_half_with_snapshots T fixed h_y h_x L delta max_iters report_every snap_every =
      Inr (grid_after fixed (variable_mask fixed) n T, int n, m)"
proof -
  have ny0: "0 < Ny" using ny by simp
  have sv: "has_shape Ny Nx (variable_mask fixed)" by (rule has_shape_variable_mask [OF sf ny0])
  obtain n m where "1 \<le> n"
    "jacobi_loop fixed (variable_mask fixed) L delta max_iters report_every snap_every T 0 =
        Inr (grid_after fixed (variable_mask fixed) n T, 0 + int n, m)"
    using jacobi_loop_run [OF sf sv ny nx re se sT, of L delta max_iters 0] by blast
  then show ?thesis
    using ny nx has_shape_dims [OF sf ny0]
    by (auto simp add: jacobi_laplace_half_with_snapshots_def)
qed

section \<open>Fixed cells\<close>

text \<open>
  C1. For every solve on the builder's output (any \<open>delta\<close>, any \<open>max_iters\<close>, nonzero
  cadences), the solver returns, and every cell where the fixed mask is true holds the
  value of the builder's grid in the grid after every number of epochs and in the returned
  grid.
\<close>

theorem fixed_cells_unchanged:
  assumes build: "build_problem_half N L L_inner T_top T_bottom T_inner init_guess
      bath_height bath_fraction = Inr (T0, fixed, h_y, h_x, L')"
    and re: "report_every \<noteq> 0" and se: "snap_every \<noteq> 0"
  shows "\<exists>T_final epochs max_change.
    jacobi_laplace_half_with_snapshots T0 fixed h_y h_x L' delta max_iters
      report_every snap_every = Inr (T_final, epochs, max_change) \<and>
    (\<forall>j i. j < length fixed \<and> i < length (fixed ! j) \<and> fixed ! j ! i \<longrightarrow>
       T_final ! j ! i = T0 ! j ! i \<and>
       (\<forall>k. grid_after fixed (variable_mask fixed) k T0 ! j ! i = T0 ! j ! i))"
proof -
  note s = build_problem_half_shape [OF build]
  obtain n m where run: "jacobi_laplace_half_with_snapshots T0 fixed h_y h_x L' delta max_iters
      report_every snap_every = Inr (grid_after fixed (variable_mask fixed) n T0, int n, m)"
    using solver_result [OF s re se] by blast
  have "grid_after fixed (variable_mask fixed) k T0 ! j ! i = T0 ! j ! i"
    if "j < length fixed \<and> i < length (fixed ! j) \<and> fixed ! j ! i" for j i k
  proof -
    from that have j: "j < nat N" using has_shape_length [OF s(2)] by simp
    with that have i: "i < nat (N div 2 + 1)" using has_shape_nth [OF s(2) j] by simp
    from that show ?thesis using grid_after_fixed [OF s(1) s(4) j i] by blast
  qed
  with run show ?thesis by blast
qed

theorem fixed_cells_unchanged_witness:
  "build_problem_half 5 4 1 100 32 212 90 None (4 / 9) =
     Inr ([[Fin 32, Fin 32, Fin 32], [Fin 90, Fin 90, Fin 32], [Fin 212, Fin 90, Fin (194 / 5)],
       [Fin 90, Fin 90, Fin (347 / 5)], [Fin 100, Fin 100, Fin 100]],
          [[True, True, True], [False, False, True], [True, False, True],
           [False, False, True], [True, True, True]], 1, 1, 4) \<and>
   jacobi_laplace_half_with_snapshots
     [[Fin 32, Fin 32, Fin 32], [Fin 90, Fin 90, Fin 32], [Fin 212, Fin 90, Fin (194 / 5)],
       [Fin 90, Fin 90, Fin (347 / 5)], [Fin 100, Fin 100, Fin 100]]
     [[True, True, True], [False, False, True], [True, False, True],
      [False, False, True], [True, True, True]] 1 1 4 (1 / 1000) 2 500 500 =
     Inr ([[Fin 32, Fin 32, Fin 32], [Fin (2327 / 40), Fin (2327 / 40), Fin 32],
       [Fin 212, Fin (7983 / 80), Fin (194 / 5)],
           [Fin (7289 / 80), Fin (7289 / 80), Fin (347 / 5)],
             [Fin 100, Fin 100, Fin 100]], 2, Fin (633 / 80)) \<and>
   grid_after
     [[True, True, True], [False, False, True], [True, False, True],
      [False, False, True], [True, True, True]]
     (variable_mask [[True, True, True], [False, False, True], [True, False, True],
      [False, False, True], [True, True, True]]) 7
     [[Fin 32, Fin 32, Fin 32], [Fin 90, Fin 90, Fin 32], [Fin 212, Fin 90, Fin (194 / 5)],
       [Fin 90, Fin 90, Fin (347 / 5)], [Fin 100, Fin 100, Fin 100]]
     ! 2 ! 0 = Fin 212"
proof -
  define T0 :: "fval grid" where
    "T0 = [[Fin 32, Fin 32, Fin 32], [Fin 90, Fin 90, Fin 32], [Fin 212, Fin 90, Fin (194 / 5)],
      [Fin 90, Fin 90, Fin (347 / 5)], [Fin 100, Fin 100, Fin 100]]"
  define F where "F = [[True, True, True], [False, False, True], [True, False, True],
      [False, False, True], [True, True, True]]"
  have build: "build_problem_half 5 4 1 100 32 212 90 None (4 / 9) = Inr (T0, F, 1, 1, 4)"
    unfolding T0_def F_def by code_simp
  have run: "jacobi_laplace_half_with_snapshots T0 F 1 1 4 (1 / 1000) 2 500 500 =
     Inr ([[Fin 32, Fin 32, Fin 32], [Fin (2327 / 40), Fin (2327 / 40), Fin 32],
       [Fin 212, Fin (7983 / 80), Fin (194 / 5)],
           [Fin (7289 / 80), Fin (7289 / 80), Fin (347 / 5)],
             [Fin 100, Fin 100, Fin 100]], 2, Fin (633 / 80))"
    unfolding T0_def F_def by code_simp
  have re: "(500::int) \<noteq> 0" by simp
  obtain T_final epochs max_change where
    "\<forall>j i. j < length F \<and> i < length (F ! j) \<and> F ! j ! i \<longrightarrow>
       T_final ! j ! i = T0 ! j ! i \<and>
       (\<forall>k. grid_after F (variable_mask F) k T0 ! j ! i = T0 ! j ! i)"
    using fixed_cells_unchanged [OF build re re] by blast
  then have "j < length F \<and> i < length (F ! j) \<and> F ! j ! i \<longrightarrow>
       grid_after F (variable_mask F) 7 T0 ! j ! i = T0 ! j ! i" for j i
    by blast
  from this [of 2 0] have "grid_after F (variable_mask F) 7 T0 ! 2 ! 0 = Fin 212"
    by (simp add: F_def T0_def)
  with build run show ?thesis unfolding T0_def F_def by blast
qed

section \<open>Degenerate geometry\<close>

text \<open>
  C8 says that the builder never divides by zero for \<open>N \<ge> 1\<close> and returns normally. For
  \<open>N = 1\<close> the first division, \<open>h_y = L / (Ny - 1)\<close>, has divisor 0 and raises, whatever
  the other arguments are; the guard on \<open>h_x\<close> is never reached.
\<close>

theorem build_problem_half_one_row:
  "build_problem_half 1 L L_inner T_top T_bottom T_inner init_guess bath_height bath_fraction =
    Inl ZeroDivisionError"
  by (simp add: build_problem_half_def py_div_int_def py_float_of_int_def py_div_def fl64_0)

section \<open>The inner hot square\<close>

lemma in_slice_between:
  "0 \<le> a \<Longrightarrow> a \<le> int k \<Longrightarrow> int k < b \<Longrightarrow> k < n \<Longrightarrow> in_slice a b n k"
  by (auto simp add: in_slice_def slice_bound_def)

text \<open>
  C7 says that the rows of the inner square are the mid-height row plus and minus the
  rounded half-extent. For \<open>N = 7\<close>, \<open>L = 6\<close>, \<open>L_inner = 3\<close> that range is rows 1 to 5,
  but the builder rounds each end on its own (1.5 to 2 and 4.5 to 4) and fixes rows 2 to 4
  only: cell \<open>(1, 0)\<close> keeps the initial guess and is not fixed.
\<close>

theorem inner_square_rows_counterexample:
  "(case build_problem_half 7 6 3 100 32 212 90 None (4 / 9) of
      Inl e \<Rightarrow> False
    | Inr (T0, fixed, h_y, h_x, L') \<Rightarrow>
        (case spec_inner_row_range 7 3 h_y of
           (row_low, row_high) \<Rightarrow>
             row_low \<le> 1 \<and> 1 \<le> row_high \<and> \<not> fixed ! 1 ! 0 \<and> T0 ! 1 ! 0 \<noteq> Fin 212))"
  by code_simp

text \<open>
  C7, amended. The inner square is the slice of rows \<open>j_low\<close> to \<open>j_high\<close> and columns 0 to
  \<open>i_right\<close>, where \<open>j_low = round((L/2 - L_inner/2) / h_y)\<close>,
  \<open>j_high = round((L/2 + L_inner/2) / h_y)\<close> and \<open>i_right = round((L_inner/2) / h_x)\<close>, each
  quotient computed in \<open>float64\<close> (every operation rounded) and rounded on its own (ties
  to even). When \<open>j_low\<close> is not negative, every cell of the grid in that range holds
  \<open>T_inner\<close> and is marked fixed in the builder's output.
\<close>

theorem inner_square_block:
  assumes build: "build_problem_half N L L_inner T_top T_bottom T_inner init_guess
      bath_height bath_fraction = Inr (T0, fixed, h_y, h_x, L')"
  shows "\<exists>j_low j_high i_right.
    inner_square_indices L L_inner h_y h_x = Inr (j_low, j_high, 0, i_right) \<and>
    j_low = py_round (fl64 (fl64 (fl64 (L / 2) - fl64 (L_inner / 2)) / h_y)) \<and>
    j_high = py_round (fl64 (fl64 (fl64 (L / 2) + fl64 (L_inner / 2)) / h_y)) \<and>
    i_right = py_round (fl64 (fl64 (L_inner / 2) / h_x)) \<and>
    (\<forall>j i. 0 \<le> j_low \<and> j_low \<le> int j \<and> int j \<le> j_high \<and> j < length T0 \<and>
       int i \<le> i_right \<and> i < length (T0 ! j) \<longrightarrow>
       T0 ! j ! i = Fin T_inner \<and> fixed ! j ! i)"
proof -
  from build_problem_half_Inr [OF build] obtain j_low j_high i_right where
    n: "2 \<le> N"
    and ix: "inner_square_indices L L_inner h_y h_x = Inr (j_low, j_high, 0, i_right)"
    and t: "T0 = assign_block j_low (j_high + 1) 0 (i_right + 1) (Fin T_inner)
         (fst (boundary_problem (nat N) (nat (N div 2 + 1)) L T_top T_bottom init_guess
            bath_height bath_fraction))"
    and f: "fixed = assign_block j_low (j_high + 1) 0 (i_right + 1) True
         (snd (boundary_problem (nat N) (nat (N div 2 + 1)) L T_top T_bottom init_guess
            bath_height bath_fraction))"
    by blast
  note p = inner_square_indices_Inr [OF ix]
  note s = build_problem_half_shape [OF build]
  have ny: "0 < nat N" using n by simp
  have cell: "T0 ! j ! i = Fin T_inner \<and> fixed ! j ! i"
    if "0 \<le> j_low \<and> j_low \<le> int j \<and> int j \<le> j_high \<and> j < length T0 \<and>
       int i \<le> i_right \<and> i < length (T0 ! j)" for j i
  proof -
    from that have j: "j < nat N" using has_shape_length [OF s(1)] by simp
    with that have i: "i < nat (N div 2 + 1)" using has_shape_nth [OF s(1) j] by simp
    have rows: "in_slice j_low (j_high + 1) (nat N) j"
      using that j by (intro in_slice_between) simp_all
    have cols: "in_slice 0 (i_right + 1) (nat (N div 2 + 1)) i"
      using that i by (intro in_slice_between) simp_all
    show ?thesis
      unfolding t f
      using rows cols
      by (simp add: nth_assign_block [OF has_shape_boundary_problem(1) [OF ny] j i]
          nth_assign_block [OF has_shape_boundary_problem(2) [OF ny] j i])
  qed
  from ix p cell show ?thesis by blast
qed

theorem inner_square_block_witness:
  "build_problem_half 7 6 3 100 32 212 90 None (4 / 9) =
     Inr ([[Fin 32, Fin 32, Fin 32, Fin 32], [Fin 90, Fin 90, Fin 90, Fin 32],
       [Fin 212, Fin 212, Fin 212, Fin 32], [Fin 212, Fin 212, Fin 212, Fin (194 / 5)],
           [Fin 212, Fin 212, Fin 212, Fin (296 / 5)], [Fin 90, Fin 90, Fin 90, Fin (398 / 5)],
             [Fin 100, Fin 100, Fin 100, Fin 100]],
          [[True, True, True, True], [False, False, False, True], [True, True, True, True],
           [True, True, True, True], [True, True, True, True], [False, False, False, True],
           [True, True, True, True]], 1, 1, 6) \<and>
   py_round (fl64 (fl64 (fl64 (6 / 2) - fl64 (3 / 2)) / 1)) = 2 \<and>
     py_round (fl64 (fl64 (fl64 (6 / 2) + fl64 (3 / 2)) / 1)) = 4 \<and>
   py_round (fl64 (fl64 (3 / 2) / 1)) = 2 \<and>
   [[Fin 32, Fin 32, Fin 32, Fin 32], [Fin 90, Fin 90, Fin 90, Fin 32],
     [Fin 212, Fin 212, Fin 212, Fin 32], [Fin 212, Fin 212, Fin 212, Fin (194 / 5)],
    [Fin 212, Fin 212, Fin 212, Fin (296 / 5)], [Fin 90, Fin 90, Fin 90, Fin (398 / 5)],
      [Fin 100, Fin 100, Fin 100, Fin 100]] ! 4 ! 2 = Fin 212"
proof -
  define T0 :: "fval grid" where
    "T0 = [[Fin 32, Fin 32, Fin 32, Fin 32], [Fin 90, Fin 90, Fin 90, Fin 32],
      [Fin 212, Fin 212, Fin 212, Fin 32], [Fin 212, Fin 212, Fin 212, Fin (194 / 5)],
           [Fin 212, Fin 212, Fin 212, Fin (296 / 5)], [Fin 90, Fin 90, Fin 90, Fin (398 / 5)],
             [Fin 100, Fin 100, Fin 100, Fin 100]]"
  define F where "F = [[True, True, True, True], [False, False, False, True],
    [True, True, True, True],
           [True, True, True, True], [True, True, True, True], [False, False, False, True],
           [True, True, True, True]]"
  have build: "build_problem_half 7 6 3 100 32 212 90 None (4 / 9) = Inr (T0, F, 1, 1, 6)"
    unfolding T0_def F_def by code_simp
  have r: "py_round (fl64 (fl64 (fl64 (6 / 2) - fl64 (3 / 2)) / 1)) =
    2" "py_round (fl64 (fl64 (fl64 (6 / 2) + fl64 (3 / 2)) / 1)) = 4"
    "py_round (fl64 (fl64 (3 / 2) / 1)) = 2"
    by code_simp+
  obtain j_low j_high i_right where
    b: "j_low = py_round (fl64 (fl64 (fl64 (6 / 2) - fl64 (3 / 2)) / 1))" "j_high =
      py_round (fl64 (fl64 (fl64 (6 / 2) + fl64 (3 / 2)) / 1))"
      "i_right = py_round (fl64 (fl64 (3 / 2) / 1))"
    and c: "\<forall>j i. 0 \<le> j_low \<and> j_low \<le> int j \<and> int j \<le> j_high \<and> j < length T0 \<and>
       int i \<le> i_right \<and> i < length (T0 ! j) \<longrightarrow> T0 ! j ! i = Fin 212 \<and> F ! j ! i"
    using inner_square_block [OF build] by blast
  have "T0 ! 4 ! 2 = Fin 212"
    using c [THEN spec, THEN spec, of 4 2] b r by (simp add: T0_def)
  with build r show ?thesis unfolding T0_def F_def by blast
qed

text \<open>
  The rounding of the quotients decides the range. For \<open>N = 15\<close>, \<open>L = 9\<close>,
  \<open>L_inner = 4.5\<close> the spacings are \<open>fl64 (9 / 14)\<close>, below \<open>9 / 14\<close>, and the quotient
  \<open>2.25 / h_x\<close> is \<open>3.4999999999999996\<close>, not \<open>3.5\<close>: the square is rows 3 to 10 and
  columns 0 to 3, and cell \<open>(5, 4)\<close> is left free.
\<close>

lemma inner_square_float_example:
  "(case build_problem_half 15 9 (9 / 2) 100 32 212 90 None (4 / 9) of
      Inl e \<Rightarrow> False
    | Inr (T0, fixed, h_y, h_x, L') \<Rightarrow>
        h_y = 5790342378047781 / 9007199254740992 \<and> h_x = h_y \<and>
        fl64 (fl64 (9 / 2 / 2) / h_x) = 7881299347898367 / 2251799813685248 \<and>
        inner_square_indices 9 (9 / 2) h_y h_x = Inr (3, 10, 0, 3) \<and>
        fixed ! 5 ! 3 \<and> T0 ! 5 ! 3 = Fin 212 \<and> \<not> fixed ! 5 ! 4 \<and> T0 ! 5 ! 4 = Fin 90)"
  by code_simp

section \<open>Scenario A: a uniform problem\<close>

lemma nth_side_profile_uniform:
  "j < length y \<Longrightarrow> y ! j \<le> L \<Longrightarrow> side_profile L y0 c c y ! j = Fin c"
  by (simp add: side_profile_def)

lemma length_linspace: "length (linspace a b n) = n"
  by (simp add: linspace_def)

lemma nth_linspace_le:
  assumes l: "0 \<le> L" and j: "j < n"
  shows "linspace 0 L n ! j \<le> L"
proof (cases "1 < n \<and> j = n - 1")
  case True
  then show ?thesis using j by (simp add: linspace_def)
next
  case False
  then have e: "linspace 0 L n ! j = real j * (L / real (n - 1))"
    using j by (simp add: linspace_def)
  show ?thesis
  proof (cases "n = 1")
    case True
    then show ?thesis using j l e by simp
  next
    case n1: False
    with False j have "j < n - 1" by arith
    then have "real j / real (n - 1) \<le> 1" by simp
    then have "L * (real j / real (n - 1)) \<le> L * 1"
      using l by (rule mult_left_mono)
    then show ?thesis unfolding e by (simp add: mult.commute)
  qed
qed

lemma boundary_problem_uniform:
  assumes l: "0 \<le> L" and j: "j < Ny" and i: "i < Nx"
  shows "fst (boundary_problem Ny Nx L c c c bh bf) ! j ! i = Fin c"
proof -
  have ny: "0 < Ny" using j by simp
  note s0 = has_shape_np_full [of Ny Nx "Fin c"]
  note s1 = has_shape_assign_row [OF s0 ny, of 0 "Fin c"]
  note s2 = has_shape_assign_row [OF s1 ny, of "Ny - 1" "Fin c"]
  have side: "side_profile L y0 c c (linspace 0 L Ny) ! j = Fin c" for y0
    using j nth_linspace_le [OF l j] by (simp add: nth_side_profile_uniform length_linspace)
  show ?thesis
    unfolding boundary_problem_def Let_def fst_conv
    by (simp only: nth_assign_col_values [OF s2 j i] nth_assign_row [OF s1 j i]
        nth_assign_row [OF s0 j i] nth_np_full [OF j i] side if_cancel)
qed

lemma jacobi_next_uniform:
  assumes s: "has_shape ny nx T" and ny: "0 < ny" and nx: "2 \<le> nx"
    and u: "\<And>j i. j < ny \<Longrightarrow> i < nx \<Longrightarrow> T ! j ! i = Fin c"
  shows "jacobi_next fixed var T = T"
proof (rule grid_eqI [OF has_shape_jacobi_next [OF s ny] s])
  fix j i assume j: "j < ny" and i: "i < nx"
  have one: "1 < nx" using nx by simp
  have avg: "fmul (Fin 0.25)
      (fadd (fadd (fadd (T ! (j - 1) ! k) (T ! (j + 1) ! k)) (T ! j ! (k - 1))) (T ! j ! (k + 1))) =
      Fin c"
    if "1 \<le> j" "j < ny - 1" "1 \<le> k" "k < nx - 1" for k
  proof -
    have "j - 1 < ny" "j + 1 < ny" "k < nx" "k - 1 < nx" "k + 1 < nx"
      using that j by arith+
    then have "T ! (j - 1) ! k = Fin c" "T ! (j + 1) ! k = Fin c" "T ! j ! (k - 1) = Fin c"
      "T ! j ! (k + 1) = Fin c"
      using u j by simp_all
    then show ?thesis by simp
  qed
  define k where "k = (if i = 0 then 1 else i)"
  have k: "k < nx" using i one by (simp add: k_def)
  have e: "jacobi_next fixed var T ! j ! i =
      (if fixed ! j ! i then T ! j ! i
       else if 1 \<le> j \<and> j < ny - 1 \<and> 1 \<le> k \<and> k < nx - 1 \<and> var ! j ! k
         then fmul (Fin 0.25)
           (fadd (fadd (fadd (T ! (j - 1) ! k) (T ! (j + 1) ! k)) (T ! j ! (k - 1)))
              (T ! j ! (k + 1)))
         else T ! j ! k)"
    unfolding nth_jacobi_next [OF s nx j i] Let_def k_def by (rule refl)
  show "jacobi_next fixed var T ! j ! i = T ! j ! i"
  proof (cases "fixed ! j ! i")
    case True
    then show ?thesis by (simp only: e if_True)
  next
    case nf: False
    show ?thesis
    proof (cases "1 \<le> j \<and> j < ny - 1 \<and> 1 \<le> k \<and> k < nx - 1 \<and> var ! j ! k")
      case True
      then have "fmul (Fin 0.25)
          (fadd (fadd (fadd (T ! (j - 1) ! k) (T ! (j + 1) ! k)) (T ! j ! (k - 1)))
             (T ! j ! (k + 1))) = Fin c"
        using avg [of k] by blast
      with nf True show ?thesis unfolding e by (simp add: u [OF j i])
    next
      case False
      with nf show ?thesis unfolding e by (auto simp add: u [OF j i] u [OF j k])
    qed
  qed
qed

text \<open>
  C6. With \<open>N = 5\<close>, \<open>L = 1\<close> and \<open>T_top = T_bottom = T_inner = init_guess = 50\<close> (any
  inner size and bath level, any \<open>delta > 0\<close>, nonzero cadences), the builder returns; the
  first pass yields the same grid and \<open>max_change = 0\<close>; and the solver returns at epoch
  count 1 with the builder's grid.
\<close>

theorem uniform_scenario:
  assumes d: "0 < delta" and re: "report_every \<noteq> 0" and se: "snap_every \<noteq> 0"
  shows "\<exists>T0 fixed h_y h_x.
    build_problem_half 5 1 L_inner 50 50 50 50 bath_height bath_fraction =
      Inr (T0, fixed, h_y, h_x, 1) \<and>
    jacobi_sweep fixed (variable_mask fixed) T0 = Inr (T0, Fin 0) \<and>
    jacobi_laplace_half_with_snapshots T0 fixed h_y h_x 1 delta max_iters
      report_every snap_every = Inr (T0, 1, Fin 0)"
proof -
  have hy: "py_div_int 1 4 = Inr (1 / 4)" by code_simp
  have hx: "py_div_int (fl64 (1 / 2)) 2 = Inr (1 / 4)" by code_simp
  have "\<exists>a b c. inner_square_indices 1 L_inner (1 / 4) (1 / 4) = Inr (a, b, 0, c)"
    by (simp add: inner_square_indices_def Let_def py_div_def)
  then obtain a b c where
    ix: "inner_square_indices 1 L_inner (1 / 4) (1 / 4) = Inr (a, b, 0, c)"
    by blast
  define T0 where "T0 = assign_block a (b + 1) 0 (c + 1) (Fin 50)
    (fst (boundary_problem 5 3 1 50 50 50 bath_height bath_fraction))"
  define fixed where "fixed = assign_block a (b + 1) 0 (c + 1) True
    (snd (boundary_problem 5 3 1 50 50 50 bath_height bath_fraction))"
  define h_y :: real where "h_y = 1 / 4"
  define h_x :: real where "h_x = 1 / 4"
  define L' :: real where "L' = 1"
  have build: "build_problem_half 5 1 L_inner 50 50 50 50 bath_height bath_fraction =
      Inr (T0, fixed, h_y, h_x, L')"
    unfolding build_problem_half_def Let_def T0_def fixed_def h_y_def h_x_def L'_def
    using hy hx ix by (simp add: split_beta)
  note s = build_problem_half_shape [OF build]
  from build_problem_half_Inr [OF build] obtain j_low j_high i_right where
    l: "L' = 1"
    and t: "T0 = assign_block j_low (j_high + 1) 0 (i_right + 1) (Fin 50)
         (fst (boundary_problem (nat 5) (nat (5 div 2 + 1)) 1 50 50 50 bath_height bath_fraction))"
    by blast
  have ny0: "0 < nat 5" by simp
  have l0: "(0::real) \<le> 1" by simp
  have u: "T0 ! j ! i = Fin 50" if "j < nat 5" "i < nat (5 div 2 + 1)" for j i
    unfolding t
    by (simp only: nth_assign_block [OF has_shape_boundary_problem(1) [OF ny0] that]
        boundary_problem_uniform [OF l0 that] if_cancel)
  have sv: "has_shape (nat 5) (nat (5 div 2 + 1)) (variable_mask fixed)"
    by (rule has_shape_variable_mask [OF s(2) ny0])
  have nxt: "jacobi_next fixed (variable_mask fixed) T0 = T0"
    by (rule jacobi_next_uniform [OF s(1) ny0 s(4) u])
  obtain m where sw: "jacobi_sweep fixed (variable_mask fixed) T0 = Inr (T0, m)"
    and cm: "convergence_metric (variable_mask fixed) T0 T0 = Inr m"
    using jacobi_sweep_ok [OF s(1) s(2) sv ny0 s(4)] unfolding nxt by blast
  have diff: "fabs (fsub (T0 ! j ! i) (T0 ! j ! i)) = Fin 0"
    if "j < nat 5" "i < nat (5 div 2 + 1)" for j i
    unfolding u [OF that] by (simp add: fsub_def)
  obtain m' where c: "convergence_metric (variable_mask fixed) T0 T0 = Inr m'"
    "\<not> np_any (variable_mask fixed) \<longrightarrow> m' = Fin 0"
    "np_any (variable_mask fixed) \<and>
       \<not> (\<exists>j i. j < nat 5 \<and> i < nat (5 div 2 + 1) \<and> variable_mask fixed ! j ! i \<and>
          fabs (fsub (T0 ! j ! i) (T0 ! j ! i)) = NaN) \<longrightarrow>
      (\<exists>j i. j < nat 5 \<and> i < nat (5 div 2 + 1) \<and> variable_mask fixed ! j ! i \<and>
        m' = fabs (fsub (T0 ! j ! i) (T0 ! j ! i)))"
    using convergence_metric_cases [OF s(1) sv ny0, of T0] by blast
  have nonan: "\<not> (\<exists>j i. j < nat 5 \<and> i < nat (5 div 2 + 1) \<and> variable_mask fixed ! j ! i \<and>
          fabs (fsub (T0 ! j ! i) (T0 ! j ! i)) = NaN)"
    using diff by auto
  have "m' = Fin 0"
  proof (cases "np_any (variable_mask fixed)")
    case True
    with c(3) nonan obtain j i where "j < nat 5" "i < nat (5 div 2 + 1)"
      "m' = fabs (fsub (T0 ! j ! i) (T0 ! j ! i))"
      by blast
    then show ?thesis using diff by simp
  next
    case False
    with c(2) show ?thesis by simp
  qed
  with c(1) cm have m0: "m = Fin 0" by simp
  obtain records where ex: "export_structured_csv_full (mirror_full_from_half T0) 1 = Inr records"
    using export_mirror_ok [OF s(1) s(3) s(4)] by blast
  have loop: "jacobi_loop fixed (variable_mask fixed) 1 delta max_iters report_every snap_every T0
    0 =
      Inr (T0, 1, Fin 0)"
    using sw ex re se d unfolding m0 by (subst jacobi_loop.simps) simp
  have solver: "jacobi_laplace_half_with_snapshots T0 fixed h_y h_x 1 delta max_iters
      report_every snap_every = Inr (T0, 1, Fin 0)"
    using loop s(3) s(4) has_shape_dims [OF s(2) ny0]
    by (simp add: jacobi_laplace_half_with_snapshots_def)
  from build sw solver show ?thesis unfolding m0 l by blast
qed

theorem uniform_scenario_witness:
  "(0::real) < 1 / 1000 \<and>
   build_problem_half 5 1 3 50 50 50 50 None (4 / 9) =
     Inr ([[Fin 50, Fin 50, Fin 50], [Fin 50, Fin 50, Fin 50], [Fin 50, Fin 50, Fin 50],
           [Fin 50, Fin 50, Fin 50], [Fin 50, Fin 50, Fin 50]],
          [[True, True, True], [True, True, True], [True, True, True], [True, True, True],
           [True, True, True]], 1 / 4, 1 / 4, 1) \<and>
   jacobi_laplace_half_with_snapshots
     [[Fin 50, Fin 50, Fin 50], [Fin 50, Fin 50, Fin 50], [Fin 50, Fin 50, Fin 50],
      [Fin 50, Fin 50, Fin 50], [Fin 50, Fin 50, Fin 50]]
     [[True, True, True], [True, True, True], [True, True, True], [True, True, True],
      [True, True, True]] (1 / 4) (1 / 4) 1 (1 / 1000) 2000000 500 500 =
     Inr ([[Fin 50, Fin 50, Fin 50], [Fin 50, Fin 50, Fin 50], [Fin 50, Fin 50, Fin 50],
           [Fin 50, Fin 50, Fin 50], [Fin 50, Fin 50, Fin 50]], 1, Fin 0)"
proof -
  have d: "(0::real) < 1 / 1000" by simp
  have re: "(500::int) \<noteq> 0" by simp
  have build: "build_problem_half 5 1 3 50 50 50 50 None (4 / 9) =
     Inr ([[Fin 50, Fin 50, Fin 50], [Fin 50, Fin 50, Fin 50], [Fin 50, Fin 50, Fin 50],
           [Fin 50, Fin 50, Fin 50], [Fin 50, Fin 50, Fin 50]],
          [[True, True, True], [True, True, True], [True, True, True], [True, True, True],
           [True, True, True]], 1 / 4, 1 / 4, 1)"
    by code_simp
  obtain T0 fixed h_y h_x where
    b: "build_problem_half 5 1 3 50 50 50 50 None (4 / 9) = Inr (T0, fixed, h_y, h_x, 1)"
    and r: "jacobi_laplace_half_with_snapshots T0 fixed h_y h_x 1 (1 / 1000) 2000000 500 500 =
      Inr (T0, 1, Fin 0)"
    using uniform_scenario [OF d re re, of 3 None "4 / 9" 2000000] by blast
  have "T0 = [[Fin 50, Fin 50, Fin 50], [Fin 50, Fin 50, Fin 50], [Fin 50, Fin 50, Fin 50],
      [Fin 50, Fin 50, Fin 50], [Fin 50, Fin 50, Fin 50]]"
    "fixed = [[True, True, True], [True, True, True], [True, True, True], [True, True, True],
      [True, True, True]]" "h_y = 1 / 4" "h_x = 1 / 4"
    using b unfolding build by simp_all
  with r have "jacobi_laplace_half_with_snapshots
     [[Fin 50, Fin 50, Fin 50], [Fin 50, Fin 50, Fin 50], [Fin 50, Fin 50, Fin 50],
      [Fin 50, Fin 50, Fin 50], [Fin 50, Fin 50, Fin 50]]
     [[True, True, True], [True, True, True], [True, True, True], [True, True, True],
      [True, True, True]] (1 / 4) (1 / 4) 1 (1 / 1000) 2000000 500 500 =
     Inr ([[Fin 50, Fin 50, Fin 50], [Fin 50, Fin 50, Fin 50], [Fin 50, Fin 50, Fin 50],
           [Fin 50, Fin 50, Fin 50], [Fin 50, Fin 50, Fin 50]], 1, Fin 0)"
    by simp
  with d build show ?thesis by blast
qed

section \<open>Properties of the rounding\<close>

text \<open>
  \<open>py_round\<close> is within one half of its argument, odd, and fixes the integers; \<open>ilog2\<close>
  is the exponent it is meant to be. From these: \<open>fl64\<close> is odd, keeps the sign, fixes
  the integers below \<open>2 ^ 53\<close> and its own values, never crosses such an integer, and is
  within a third of a positive argument unless the result is zero or the smallest
  subnormal.
\<close>

lemma py_round_floor_bounds: "\<lfloor>x\<rfloor> \<le> py_round x \<and> py_round x \<le> \<lfloor>x\<rfloor> + 1"
  by (simp add: py_round_def Let_def)

lemma py_round_0: "py_round 0 = 0"
  by (simp add: py_round_def)

lemma py_round_of_int: "py_round (of_int k) = k"
  by (simp add: py_round_def)

lemma py_round_le_int:
  assumes "x \<le> of_int k"
  shows "py_round x \<le> k"
proof (cases "x = of_int k")
  case True
  then show ?thesis by (simp add: py_round_of_int)
next
  case False
  with assms have "x < of_int k" by simp
  then have "\<lfloor>x\<rfloor> < k" by (simp add: floor_less_iff)
  then show ?thesis using py_round_floor_bounds [of x] by linarith
qed

lemma py_round_nonneg: "0 \<le> x \<Longrightarrow> 0 \<le> py_round x"
  using py_round_floor_bounds [of x] by (simp add: order_trans [of 0 "\<lfloor>x\<rfloor>"])

lemma py_round_close: "\<bar>of_int (py_round x) - x\<bar> \<le> 1 / 2"
proof -
  have "of_int \<lfloor>x\<rfloor> \<le> x" "x < of_int \<lfloor>x\<rfloor> + 1" by linarith+
  then show ?thesis unfolding py_round_def Let_def by (simp add: abs_le_iff)
qed

lemma py_round_minus: "py_round (- x) = - py_round x"
proof (cases "x = of_int \<lfloor>x\<rfloor>")
  case True
  then have "- x = of_int (- \<lfloor>x\<rfloor>)" by simp
  then have "py_round (- x) = - \<lfloor>x\<rfloor>" by (simp only: py_round_of_int)
  moreover have "py_round x = \<lfloor>x\<rfloor>" using True py_round_of_int [of "\<lfloor>x\<rfloor>"] by simp
  ultimately show ?thesis by simp
next
  case False
  define f where "f = \<lfloor>x\<rfloor>"
  have lo: "of_int f < x" using False unfolding f_def by linarith
  have hi: "x < of_int f + 1" unfolding f_def by linarith
  have fm: "\<lfloor>- x\<rfloor> = - f - 1"
    by (rule floor_unique) (use lo hi in simp_all)
  have e: "even (- f - 1) \<longleftrightarrow> odd f" by simp
  have px: "py_round x = (if x - of_int f < 1 / 2 then f
     else if 1 / 2 < x - of_int f then f + 1
     else if even f then f else f + 1)"
    unfolding py_round_def Let_def f_def by (rule refl)
  have pm: "py_round (- x) = (if - x - of_int (- f - 1) < 1 / 2 then - f - 1
     else if 1 / 2 < - x - of_int (- f - 1) then - f - 1 + 1
     else if even (- f - 1) then - f - 1 else - f - 1 + 1)"
    unfolding py_round_def Let_def fm by (rule refl)
  consider "x - of_int f < 1 / 2" | "1 / 2 < x - of_int f" | "x - of_int f = 1 / 2"
    by linarith
  then show ?thesis
  proof cases
    case 1
    then show ?thesis unfolding px pm e by simp
  next
    case 2
    then show ?thesis unfolding px pm e by simp
  next
    case 3
    then show ?thesis unfolding px pm e by simp
  qed
qed

lemma power_int_nat: "0 \<le> n \<Longrightarrow> (2::real) powi n = 2 ^ nat n"
  by (simp add: power_int_def)

lemma ilog2_lower:
  assumes "0 < x"
  shows "2 powi (ilog2 x) \<le> x"
proof (cases "1 \<le> x")
  case True
  then have n: "0 < \<lfloor>x\<rfloor>" by simp
  have b: "0 \<le> bitlen \<lfloor>x\<rfloor> - 1" using n by (simp add: bitlen_alt_def)
  from bitlen_bounds [OF n] have "2 ^ nat (bitlen \<lfloor>x\<rfloor> - 1) \<le> \<lfloor>x\<rfloor>" by simp
  then have "real_of_int (2 ^ nat (bitlen \<lfloor>x\<rfloor> - 1)) \<le> of_int \<lfloor>x\<rfloor>"
    by (rule of_int_le_iff [THEN iffD2])
  also have "\<dots> \<le> x" by simp
  finally have "2 ^ nat (bitlen \<lfloor>x\<rfloor> - 1) \<le> x" by simp
  then show ?thesis using True by (simp only: ilog2_def if_True power_int_nat [OF b])
next
  case False
  define k where "k = \<lceil>1 / x\<rceil> - 1"
  from False assms have "1 < 1 / x" by simp
  then have k: "0 < k" unfolding k_def by linarith
  have b: "0 \<le> bitlen k" by (simp add: bitlen_nonneg)
  from bitlen_bounds [OF k] have "k < 2 ^ nat (bitlen k)" by simp
  then have "\<lceil>1 / x\<rceil> \<le> 2 ^ nat (bitlen k)" unfolding k_def by simp
  then have "1 / x \<le> of_int (2 ^ nat (bitlen k))" by (simp only: ceiling_le_iff)
  then have "1 / x \<le> 2 ^ nat (bitlen k)" by simp
  then have "1 \<le> 2 ^ nat (bitlen k) * x" using assms by (simp add: field_simps)
  then have "inverse (2 ^ nat (bitlen k)) \<le> x" by (simp add: field_simps)
  then have "2 powi (- bitlen k) \<le> x"
    by (simp only: power_int_minus power_int_nat [OF b])
  then show ?thesis using False by (simp only: ilog2_def if_False k_def)
qed

lemma ilog2_upper:
  assumes "0 < x"
  shows "x < 2 powi (ilog2 x + 1)"
proof (cases "1 \<le> x")
  case True
  then have n: "0 < \<lfloor>x\<rfloor>" by simp
  have b: "0 \<le> bitlen \<lfloor>x\<rfloor>" by (simp add: bitlen_nonneg)
  from bitlen_bounds [OF n] have "\<lfloor>x\<rfloor> + 1 \<le> 2 ^ nat (bitlen \<lfloor>x\<rfloor>)" by simp
  then have "real_of_int (\<lfloor>x\<rfloor> + 1) \<le> of_int (2 ^ nat (bitlen \<lfloor>x\<rfloor>))"
    by (rule of_int_le_iff [THEN iffD2])
  then have "real_of_int \<lfloor>x\<rfloor> + 1 \<le> 2 ^ nat (bitlen \<lfloor>x\<rfloor>)" by simp
  moreover have "x < real_of_int \<lfloor>x\<rfloor> + 1" by linarith
  ultimately have "x < 2 ^ nat (bitlen \<lfloor>x\<rfloor>)" by (rule less_le_trans [rotated])
  then have "x < 2 powi (bitlen \<lfloor>x\<rfloor>)" by (simp only: power_int_nat [OF b])
  then show ?thesis using True by (simp only: ilog2_def if_True diff_add_cancel)
next
  case False
  define k where "k = \<lceil>1 / x\<rceil> - 1"
  from False assms have "1 < 1 / x" by simp
  then have k: "0 < k" unfolding k_def by linarith
  have b: "0 \<le> bitlen k - 1" using k by (simp add: bitlen_alt_def)
  from bitlen_bounds [OF k] have "2 ^ nat (bitlen k - 1) \<le> k" by simp
  then have "real_of_int (2 ^ nat (bitlen k - 1)) \<le> of_int k"
    by (rule of_int_le_iff [THEN iffD2])
  then have "2 ^ nat (bitlen k - 1) \<le> real_of_int k" by simp
  moreover have "of_int k < 1 / x" unfolding k_def by linarith
  ultimately have "2 ^ nat (bitlen k - 1) < 1 / x" by (rule le_less_trans)
  then have "2 ^ nat (bitlen k - 1) * x < 1" using assms by (simp add: field_simps)
  then have "x < inverse (2 ^ nat (bitlen k - 1))" by (simp add: field_simps)
  then have "x < 2 powi (- (bitlen k - 1))"
    by (simp only: power_int_minus power_int_nat [OF b])
  moreover have "- (bitlen k - 1) = - bitlen k + 1" by simp
  ultimately have "x < 2 powi (- bitlen k + 1)" by simp
  then show ?thesis using False by (simp only: ilog2_def if_False k_def)
qed

lemma exp_less: "(2::real) powi a < 2 powi b \<Longrightarrow> a < b"
proof (rule ccontr)
  assume l: "(2::real) powi a < 2 powi b" and "\<not> a < b"
  then have "b \<le> a" by simp
  then have "(2::real) powi b \<le> 2 powi a" by (rule power_int_increasing) simp
  with l show False by simp
qed

lemma ilog2_less:
  assumes "0 < x" and "x < 2 powi n"
  shows "ilog2 x < n"
  by (rule exp_less) (rule le_less_trans [OF ilog2_lower [OF assms(1)] assms(2)])

lemma ulp_pos: "0 < ulp x"
  by (simp add: ulp_def)

lemma ulp_minus: "ulp (- x) = ulp x"
  by (simp add: ulp_def)

lemma ulp_ge: "2 powi (- 1074) \<le> ulp x"
  unfolding ulp_def by (rule power_int_increasing) simp_all

lemma ulp_divides:
  assumes y: "0 < y" and lt: "y < 2 powi (E + 1)" and E: "- 1022 \<le> E"
  shows "\<exists>n::nat. 2 powi (E - 52) = 2 ^ n * ulp y"
proof -
  define e where "e = max (ilog2 y) (- 1022)"
  have "ilog2 y < E + 1" by (rule ilog2_less [OF y lt])
  then have le: "e \<le> E" using E by (simp add: e_def)
  have u: "ulp y = 2 powi (e - 52)" using y by (simp add: ulp_def e_def)
  have "(2::real) powi (E - 52) = 2 powi ((E - e) + (e - 52))" by simp
  also have "\<dots> = 2 powi (E - e) * 2 powi (e - 52)" by (rule power_int_add) simp
  also have "2 powi (E - e) = (2::real) ^ nat (E - e)" using le by (simp add: power_int_nat)
  finally show ?thesis unfolding u by blast
qed

lemma fl64_minus: "fl64 (- x) = - fl64 x"
  by (simp add: fl64_def ulp_minus py_round_minus)

lemma fl64_nonneg:
  assumes "0 \<le> x"
  shows "0 \<le> fl64 x"
proof -
  have "0 \<le> x / ulp x" using assms ulp_pos [of x] by simp
  then have "0 \<le> py_round (x / ulp x)" by (rule py_round_nonneg)
  then show ?thesis using ulp_pos [of x] by (simp add: fl64_def)
qed

lemma fl64_exact:
  assumes "x = of_int k * ulp x"
  shows "fl64 x = x"
proof -
  have "x / ulp x = of_int k" using assms ulp_pos [of x] by (simp add: field_simps)
  then have "py_round (x / ulp x) = k" by (simp only: py_round_of_int)
  then show ?thesis using assms by (simp add: fl64_def)
qed

lemma fl64_of_int:
  assumes k0: "0 \<le> k" and k: "k < 2 ^ 53"
  shows "fl64 (of_int k) = of_int k"
proof (cases "k = 0")
  case True
  then show ?thesis by (simp add: fl64_0)
next
  case False
  with k0 have pos: "0 < real_of_int k" by simp
  have "real_of_int k < of_int (2 ^ 53)" using k by (simp only: of_int_less_iff)
  then have lt: "real_of_int k < 2 powi (52 + 1)" by simp
  obtain n :: nat where n: "(2::real) powi (52 - 52) = 2 ^ n * ulp (of_int k)"
    using ulp_divides [OF pos lt] by auto
  have "real_of_int k = of_int (k * 2 ^ n) * ulp (of_int k)" using n by simp
  then show ?thesis by (rule fl64_exact)
qed

lemma fl64_le_int:
  assumes z: "0 < z" and le: "z \<le> of_int M" and M: "M < 2 ^ 53"
  shows "fl64 z \<le> of_int M"
proof -
  have "real_of_int M < of_int (2 ^ 53)" using M by (simp only: of_int_less_iff)
  with le have lt: "z < 2 powi (52 + 1)" by simp
  obtain n :: nat where n: "(2::real) powi (52 - 52) = 2 ^ n * ulp z"
    using ulp_divides [OF z lt] by auto
  then have u: "2 ^ n * ulp z = 1" by simp
  have "z / ulp z = z * 2 ^ n" using u ulp_pos [of z] by (simp add: field_simps)
  also have "\<dots> \<le> of_int M * 2 ^ n" using le by simp
  finally have "z / ulp z \<le> of_int (M * 2 ^ n)" by simp
  then have "py_round (z / ulp z) \<le> M * 2 ^ n" by (rule py_round_le_int)
  then have "real_of_int (py_round (z / ulp z)) \<le> of_int (M * 2 ^ n)"
    by (simp only: of_int_le_iff)
  then have "real_of_int (py_round (z / ulp z)) * ulp z \<le> of_int (M * 2 ^ n) * ulp z"
    using ulp_pos [of z] by (simp only: mult_le_cancel_right_pos)
  also have "of_int (M * 2 ^ n) * ulp z = of_int M * (2 ^ n * ulp z)" by simp
  also have "\<dots> = of_int M" unfolding u by simp
  finally show ?thesis using z by (simp add: fl64_def)
qed

lemma fl64_lower:
  assumes x: "0 < x" and nz: "fl64 x \<noteq> 0"
  shows "2 / 3 * x \<le> fl64 x" and "2 powi (- 1074) \<le> fl64 x"
proof -
  define t where "t = x / ulp x"
  define m where "m = py_round t"
  have f: "fl64 x = of_int m * ulp x" using x by (simp add: fl64_def m_def t_def)
  have xt: "x = t * ulp x" using ulp_pos [of x] by (simp add: t_def)
  have "0 \<le> t" using x ulp_pos [of x] by (simp add: t_def)
  then have "0 \<le> m" unfolding m_def by (rule py_round_nonneg)
  moreover have "m \<noteq> 0" using nz f by auto
  ultimately have m1: "1 \<le> m" by simp
  then have r1: "1 \<le> real_of_int m" by simp
  have "\<bar>real_of_int m - t\<bar> \<le> 1 / 2" unfolding m_def by (rule py_round_close)
  with r1 have "2 / 3 * t \<le> real_of_int m" by linarith
  then have "2 / 3 * t * ulp x \<le> real_of_int m * ulp x"
    using ulp_pos [of x] by (simp only: mult_le_cancel_right_pos)
  then show "2 / 3 * x \<le> fl64 x" unfolding f using xt by simp
  have "1 * ulp x \<le> real_of_int m * ulp x"
    using r1 ulp_pos [of x] by (simp only: mult_le_cancel_right_pos)
  then have "ulp x \<le> real_of_int m * ulp x" by simp
  then show "2 powi (- 1074) \<le> fl64 x" unfolding f by (rule order_trans [OF ulp_ge])
qed

lemma ulp_subnormal:
  assumes y: "0 < y" and t: "y / ulp y < 3 / 2"
  shows "ulp y = 2 powi (- 1074)"
proof -
  have "ilog2 y < - 1022"
  proof (rule ccontr)
    assume "\<not> ilog2 y < - 1022"
    then have u: "ulp y = 2 powi (ilog2 y - 52)" using y by (simp add: ulp_def max_def)
    have "(2::real) powi (ilog2 y) = 2 powi (52 + (ilog2 y - 52))"
      by (rule arg_cong [where f = "\<lambda>n. 2 powi n"]) simp
    also have "\<dots> = 2 powi 52 * 2 powi (ilog2 y - 52)" by (rule power_int_add) simp
    finally have "2 powi 52 * ulp y \<le> y" using ilog2_lower [OF y] unfolding u by simp
    then have "2 powi 52 \<le> y / ulp y" using ulp_pos [of y] by (simp add: field_simps)
    then have "(2::real) powi 52 < 3 / 2" using t by (rule le_less_trans)
    then show False by simp
  qed
  then show ?thesis using y by (simp add: ulp_def max_def)
qed

lemma fl64_upper:
  assumes y: "0 < y"
  shows "fl64 y \<le> 4 / 3 * y \<or> fl64 y \<le> 2 powi (- 1074)"
proof -
  define t where "t = y / ulp y"
  define m where "m = py_round t"
  have f: "fl64 y = of_int m * ulp y" using y by (simp add: fl64_def m_def t_def)
  have yt: "y = t * ulp y" using ulp_pos [of y] by (simp add: t_def)
  have c: "\<bar>real_of_int m - t\<bar> \<le> 1 / 2" unfolding m_def by (rule py_round_close)
  show ?thesis
  proof (cases "t < 3 / 2")
    case True
    with c have "real_of_int m < 2" by linarith
    then have "m \<le> 1" by simp
    then have "real_of_int m \<le> 1" by simp
    then have "real_of_int m * ulp y \<le> 1 * ulp y"
      using ulp_pos [of y] by (simp only: mult_le_cancel_right_pos)
    then have "real_of_int m * ulp y \<le> ulp y" by simp
    moreover have "ulp y = 2 powi (- 1074)"
      using True unfolding t_def by (rule ulp_subnormal [OF y])
    ultimately have "fl64 y \<le> 2 powi (- 1074)" unfolding f by (rule ord_le_eq_trans)
    then show ?thesis by (rule disjI2)
  next
    case False
    with c have "real_of_int m \<le> 4 / 3 * t" by linarith
    then have "real_of_int m * ulp y \<le> 4 / 3 * t * ulp y"
      using ulp_pos [of y] by (simp only: mult_le_cancel_right_pos)
    then show ?thesis unfolding f using yt by simp
  qed
qed

lemma fl64_idem_pos:
  assumes x: "0 < x"
  shows "fl64 (fl64 x) = fl64 x"
proof -
  define e where "e = max (ilog2 x) (- 1022)"
  define s where "s = ulp x"
  define m where "m = py_round (x / s)"
  have e: "- 1022 \<le> e" by (simp add: e_def)
  have u: "s = 2 powi (e - 52)" using x by (simp add: s_def ulp_def e_def)
  have sp: "0 < s" unfolding s_def by (rule ulp_pos)
  have f: "fl64 x = of_int m * s" using x by (simp add: fl64_def m_def s_def)
  have "ilog2 x + 1 \<le> e + 1" by (simp add: e_def)
  then have "(2::real) powi (ilog2 x + 1) \<le> 2 powi (e + 1)" by (rule power_int_increasing) simp
  with ilog2_upper [OF x] have xe: "x < 2 powi (e + 1)" by simp
  have split: "(2::real) powi (e + 1) = 2 powi 53 * 2 powi (e - 52)"
  proof -
    have "(2::real) powi (e + 1) = 2 powi (53 + (e - 52))"
      by (rule arg_cong [where f = "\<lambda>n. 2 powi n"]) simp
    also have "\<dots> = 2 powi 53 * 2 powi (e - 52)" by (rule power_int_add) simp
    finally show ?thesis .
  qed
  have "x < 2 powi 53 * s" using xe unfolding split u .
  then have "x / s < 2 powi 53" using sp by (simp add: field_simps)
  then have "x / s \<le> of_int (2 ^ 53)" by simp
  then have mle: "m \<le> 2 ^ 53" unfolding m_def by (rule py_round_le_int)
  have "0 \<le> x / s" using x sp by simp
  then have m0: "0 \<le> m" unfolding m_def by (rule py_round_nonneg)
  consider "m = 0" | "0 < m" "m < 2 ^ 53" | "m = 2 ^ 53" using mle m0 by linarith
  then show ?thesis
  proof cases
    case 1
    then show ?thesis unfolding f by (simp add: fl64_0)
  next
    case 2
    have yp: "0 < fl64 x" unfolding f using 2(1) sp by simp
    have "real_of_int m < of_int (2 ^ 53)" using 2(2) by (simp only: of_int_less_iff)
    then have "real_of_int m * s < of_int (2 ^ 53) * s"
      using sp by (simp only: mult_less_cancel_right_pos)
    then have lt: "fl64 x < 2 powi (e + 1)" unfolding f split u by simp
    obtain n :: nat where n: "(2::real) powi (e - 52) = 2 ^ n * ulp (fl64 x)"
      using ulp_divides [OF yp lt e] by blast
    have "fl64 x = of_int (m * 2 ^ n) * ulp (fl64 x)"
      using f n unfolding u by simp
    then show ?thesis by (rule fl64_exact)
  next
    case 3
    have y: "fl64 x = 2 powi (e + 1)" unfolding f 3 split u by simp
    have yp: "0 < fl64 x" unfolding y by simp
    have "(2::real) powi (e + 1) < 2 powi (e + 1 + 1)" by (rule power_int_strict_increasing)
      simp_all
    then have lt: "fl64 x < 2 powi (e + 1 + 1)" unfolding y .
    have e1: "- 1022 \<le> e + 1" using e by simp
    obtain n :: nat where n: "(2::real) powi (e + 1 - 52) = 2 ^ n * ulp (fl64 x)"
      using ulp_divides [OF yp lt e1] by blast
    have "(2::real) powi (e + 1) = 2 powi (52 + (e + 1 - 52))"
      by (rule arg_cong [where f = "\<lambda>n. 2 powi n"]) simp
    also have "\<dots> = 2 powi 52 * 2 powi (e + 1 - 52)" by (rule power_int_add) simp
    finally have "fl64 x = 2 powi 52 * (2 ^ n * ulp (fl64 x))" unfolding y n .
    then have "fl64 x = of_int (2 ^ 52 * 2 ^ n) * ulp (fl64 x)" by simp
    then show ?thesis by (rule fl64_exact)
  qed
qed

lemma fl64_idem: "fl64 (fl64 x) = fl64 x"
proof -
  consider "x = 0" | "0 < x" | "0 < - x" by linarith
  then show ?thesis
  proof cases
    case 1
    then show ?thesis by (simp add: fl64_0)
  next
    case 2
    then show ?thesis by (rule fl64_idem_pos)
  next
    case 3
    have "fl64 (fl64 (- x)) = fl64 (- x)" by (rule fl64_idem_pos [OF 3])
    then show ?thesis by (simp add: fl64_minus)
  qed
qed

lemma mid_quotient_pos:
  assumes L: "0 < L" and M: "2 \<le> M" and nz: "fl64 (L / of_int M) \<noteq> 0"
  shows "0 \<le> fl64 (L / 2) / fl64 (L / of_int M)"
    and "fl64 (L / 2) / fl64 (L / of_int M) \<le> of_int M"
proof -
  define x where "x = L / of_int M"
  define h where "h = fl64 x"
  define a where "a = fl64 (L / 2)"
  have Mr: "2 \<le> real_of_int M" using M by simp
  have x: "0 < x" using L Mr by (simp add: x_def)
  have Lx: "L = of_int M * x" using Mr by (simp add: x_def)
  have "0 \<le> h" unfolding h_def using x by (intro fl64_nonneg) simp
  with nz have hp: "0 < h" by (simp add: h_def x_def)
  have lo: "2 / 3 * x \<le> h" and tiny: "2 powi (- 1074) \<le> h"
    unfolding h_def using fl64_lower [OF x] nz by (simp_all add: x_def)
  have a0: "0 \<le> a" unfolding a_def using L by (intro fl64_nonneg) simp
  have half: "0 < L / 2" using L by simp
  have hM: "h \<le> of_int M * h" using hp Mr by simp
  have "a \<le> of_int M * h"
  proof -
    from fl64_upper [OF half] consider "a \<le> 4 / 3 * (L / 2)" | "a \<le> 2 powi (- 1074)"
      unfolding a_def by blast
    then show ?thesis
    proof cases
      case 1
      have "of_int M * (2 / 3 * x) \<le> of_int M * h"
        using lo Mr by (intro mult_left_mono) simp_all
      moreover have "4 / 3 * (L / 2) = of_int M * (2 / 3 * x)" by (subst Lx) simp
      ultimately show ?thesis using 1 by linarith
    next
      case 2
      then have "a \<le> h" using tiny by (rule order_trans)
      then show ?thesis using hM by (rule order_trans)
    qed
  qed
  then have "a / h \<le> of_int M" using hp by (simp add: field_simps)
  then show "fl64 (L / 2) / fl64 (L / of_int M) \<le> of_int M"
    unfolding a_def h_def x_def .
  show "0 \<le> fl64 (L / 2) / fl64 (L / of_int M)"
    using a0 hp unfolding a_def h_def x_def by simp
qed

lemma mid_quotient:
  assumes M: "2 \<le> M" and nz: "fl64 (L / of_int M) \<noteq> 0"
  shows "0 \<le> fl64 (L / 2) / fl64 (L / of_int M)"
    and "fl64 (L / 2) / fl64 (L / of_int M) \<le> of_int M"
proof -
  have l0: "L \<noteq> 0" using nz by (auto simp add: fl64_0)
  have "0 \<le> fl64 (L / 2) / fl64 (L / of_int M) \<and>
    fl64 (L / 2) / fl64 (L / of_int M) \<le> of_int M"
  proof (cases "0 < L")
    case True
    then show ?thesis using mid_quotient_pos [OF True M nz] by simp
  next
    case False
    with l0 have neg: "0 < - L" by simp
    have a: "fl64 (L / 2) = - fl64 (- L / 2)" using fl64_minus [of "L / 2"] by simp
    have h: "fl64 (L / of_int M) = - fl64 (- L / of_int M)"
      using fl64_minus [of "L / of_int M"] by simp
    have nz': "fl64 (- L / of_int M) \<noteq> 0" using nz h by simp
    from mid_quotient_pos [OF neg M nz'] show ?thesis unfolding a h by simp
  qed
  then show "0 \<le> fl64 (L / 2) / fl64 (L / of_int M)"
    and "fl64 (L / 2) / fl64 (L / of_int M) \<le> of_int M"
    by simp_all
qed

lemma mid_row_bounds:
  assumes M: "2 \<le> M" and M53: "M < 2 ^ 53" and nz: "fl64 (L / of_int M) \<noteq> 0"
  shows "0 \<le> py_round (fl64 (fl64 (L / 2) / fl64 (L / of_int M)))"
    and "py_round (fl64 (fl64 (L / 2) / fl64 (L / of_int M))) \<le> M"
proof -
  define q where "q = fl64 (L / 2) / fl64 (L / of_int M)"
  have q0: "0 \<le> q" and qM: "q \<le> of_int M"
    unfolding q_def by (rule mid_quotient [OF M nz])+
  have f0: "0 \<le> fl64 q" by (rule fl64_nonneg [OF q0])
  have fM: "fl64 q \<le> of_int M"
  proof (cases "q = 0")
    case True
    then show ?thesis using M by (simp add: fl64_0)
  next
    case False
    with q0 have "0 < q" by simp
    then show ?thesis using qM M53 by (rule fl64_le_int)
  qed
  show "0 \<le> py_round (fl64 (fl64 (L / 2) / fl64 (L / of_int M)))"
    using py_round_nonneg [OF f0] unfolding q_def .
  show "py_round (fl64 (fl64 (L / 2) / fl64 (L / of_int M))) \<le> M"
    using py_round_le_int [OF fM] unfolding q_def .
qed

section \<open>An inner square of size zero\<close>

lemma grid_size_bound:
  assumes "2 \<le> N" and "N * (N div 2 + 1) * 8 < (2::int) ^ 63"
  shows "N < 2 ^ 53"
proof (rule ccontr)
  assume "\<not> N < 2 ^ 53"
  then have a: "2 ^ 53 \<le> N" by simp
  then have b: "2 ^ 52 \<le> N div 2 + 1" by simp
  have "(2::int) ^ 53 * 2 ^ 52 \<le> N * (N div 2 + 1)"
    using a b by (rule mult_mono) (use assms(1) in simp_all)
  with assms(2) show False by simp
qed

text \<open>
  C10. With \<open>L_inner = 0\<close> and \<open>N \<ge> 3\<close>, whenever the builder returns, the inner square's
  index range is the single cell at row \<open>round((L/2) / h_y)\<close>, the quotient computed in
  \<open>float64\<close>, and column 0; that row is inside the grid, the cell holds \<open>T_inner\<close> and is
  marked fixed, and it still holds \<open>T_inner\<close> after every number of solver epochs.
\<close>

theorem zero_size_inner_square:
  assumes n: "3 \<le> N"
    and build: "build_problem_half N L 0 T_top T_bottom T_inner init_guess
      bath_height bath_fraction = Inr (T0, fixed, h_y, h_x, L')"
  shows "\<exists>j. py_round (fl64 (fl64 (L / 2) / h_y)) = int j \<and>
    inner_square_indices L 0 h_y h_x = Inr (int j, int j, 0, 0) \<and>
    j < length T0 \<and> 0 < length (T0 ! j) \<and> T0 ! j ! 0 = Fin T_inner \<and> fixed ! j ! 0 \<and>
    (\<forall>k. grid_after fixed (variable_mask fixed) k T0 ! j ! 0 = Fin T_inner)"
proof -
  from build_problem_half_Inr [OF build] obtain j_low j_high i_right where
    n2: "2 \<le> N" and size: "N * (N div 2 + 1) * 8 < 2 ^ 63"
    and hy: "h_y = fl64 (L / fl64 (of_int (N - 1)))"
    and ix: "inner_square_indices L 0 h_y h_x = Inr (j_low, j_high, 0, i_right)"
    and t: "T0 = assign_block j_low (j_high + 1) 0 (i_right + 1) (Fin T_inner)
         (fst (boundary_problem (nat N) (nat (N div 2 + 1)) L T_top T_bottom init_guess
            bath_height bath_fraction))"
    and f: "fixed = assign_block j_low (j_high + 1) 0 (i_right + 1) True
         (snd (boundary_problem (nat N) (nat (N div 2 + 1)) L T_top T_bottom init_guess
            bath_height bath_fraction))"
    by blast
  note p = inner_square_indices_Inr [OF ix]
  note s = build_problem_half_shape [OF build]
  have M2: "2 \<le> N - 1" using n by simp
  have M53: "N - 1 < 2 ^ 53" using grid_size_bound [OF n2 size] by simp
  have M: "fl64 (of_int (N - 1)) = of_int (N - 1)"
    using M2 M53 by (intro fl64_of_int) simp_all
  have hy': "h_y = fl64 (L / of_int (N - 1))" unfolding hy M by (rule refl)
  have nz: "fl64 (L / of_int (N - 1)) \<noteq> 0" using p hy' by simp
  define r where "r = py_round (fl64 (fl64 (L / 2) / h_y))"
  have lo: "0 \<le> r" and hi: "r \<le> N - 1"
    unfolding r_def hy' by (rule mid_row_bounds [OF M2 M53 nz])+
  define j where "j = nat r"
  have ji: "r = int j" using lo by (simp add: j_def)
  have jl: "j_low = int j" and jh: "j_high = int j" and ir: "i_right = 0"
    using p ji unfolding r_def by (simp_all add: fl64_0 fl64_idem py_round_0)
  have jn: "j < nat N" using hi lo by (simp add: j_def)
  have i0: "0 < nat (N div 2 + 1)" using n by simp
  have len: "j < length T0" using jn has_shape_length [OF s(1)] by simp
  have wid: "0 < length (T0 ! j)" using i0 has_shape_nth [OF s(1) jn] by simp
  have ny: "0 < nat N" using n by simp
  have rows: "in_slice j_low (j_high + 1) (nat N) j"
    unfolding jl jh using jn by (intro in_slice_between) simp_all
  have cols: "in_slice 0 (i_right + 1) (nat (N div 2 + 1)) 0"
    unfolding ir using i0 by (intro in_slice_between) simp_all
  have cell: "T0 ! j ! 0 = Fin T_inner \<and> fixed ! j ! 0"
    unfolding t f using rows cols
    by (simp add: nth_assign_block [OF has_shape_boundary_problem(1) [OF ny] jn i0]
        nth_assign_block [OF has_shape_boundary_problem(2) [OF ny] jn i0])
  then have "grid_after fixed (variable_mask fixed) k T0 ! j ! 0 = Fin T_inner" for k
    using grid_after_fixed [OF s(1) s(4) jn i0, of fixed "variable_mask fixed" k] by simp
  with ji ix jl jh ir len wid cell show ?thesis unfolding r_def by blast
qed

theorem zero_size_inner_square_witness:
  "(3::int) \<le> 8 \<and>
   build_problem_half 8 9 0 100 32 212 90 None (4 / 9) =
     Inr ([[Fin 32, Fin 32, Fin 32, Fin 32, Fin 32],
           [Fin 90, Fin 90, Fin 90, Fin 90, Fin 32],
           [Fin 90, Fin 90, Fin 90, Fin 90, Fin 32],
           [Fin 212, Fin 90, Fin 90, Fin 90, Fin 32],
           [Fin 90, Fin 90, Fin 90, Fin 90, Fin (1664 / 35)],
           [Fin 90, Fin 90, Fin 90, Fin 90, Fin (2276 / 35)],
           [Fin 90, Fin 90, Fin 90, Fin 90, Fin (2888 / 35)],
           [Fin 100, Fin 100, Fin 100, Fin 100, Fin 100]],
          [[True, True, True, True, True], [False, False, False, False, True],
           [False, False, False, False, True], [True, False, False, False, True],
           [False, False, False, False, True], [False, False, False, False, True],
           [False, False, False, False, True], [True, True, True, True, True]],
          5790342378047781 / 4503599627370496, 9 / 8, 9) \<and>
   fl64 (fl64 (9 / 2) / (5790342378047781 / 4503599627370496)) =
     7881299347898367 / 2251799813685248 \<and>
   py_round (fl64 (fl64 (9 / 2) / (5790342378047781 / 4503599627370496))) = 3 \<and>
   grid_after
     [[True, True, True, True, True], [False, False, False, False, True],
      [False, False, False, False, True], [True, False, False, False, True],
      [False, False, False, False, True], [False, False, False, False, True],
      [False, False, False, False, True], [True, True, True, True, True]]
     (variable_mask
        [[True, True, True, True, True], [False, False, False, False, True],
         [False, False, False, False, True], [True, False, False, False, True],
         [False, False, False, False, True], [False, False, False, False, True],
         [False, False, False, False, True], [True, True, True, True, True]]) 9
     [[Fin 32, Fin 32, Fin 32, Fin 32, Fin 32],
      [Fin 90, Fin 90, Fin 90, Fin 90, Fin 32],
      [Fin 90, Fin 90, Fin 90, Fin 90, Fin 32],
      [Fin 212, Fin 90, Fin 90, Fin 90, Fin 32],
      [Fin 90, Fin 90, Fin 90, Fin 90, Fin (1664 / 35)],
      [Fin 90, Fin 90, Fin 90, Fin 90, Fin (2276 / 35)],
      [Fin 90, Fin 90, Fin 90, Fin 90, Fin (2888 / 35)],
      [Fin 100, Fin 100, Fin 100, Fin 100, Fin 100]] ! 3 ! 0 = Fin 212"
proof -
  define T0 :: "fval grid" where
    "T0 = [[Fin 32, Fin 32, Fin 32, Fin 32, Fin 32],
           [Fin 90, Fin 90, Fin 90, Fin 90, Fin 32],
           [Fin 90, Fin 90, Fin 90, Fin 90, Fin 32],
           [Fin 212, Fin 90, Fin 90, Fin 90, Fin 32],
           [Fin 90, Fin 90, Fin 90, Fin 90, Fin (1664 / 35)],
           [Fin 90, Fin 90, Fin 90, Fin 90, Fin (2276 / 35)],
           [Fin 90, Fin 90, Fin 90, Fin 90, Fin (2888 / 35)],
           [Fin 100, Fin 100, Fin 100, Fin 100, Fin 100]]"
  define F where
    "F = [[True, True, True, True, True], [False, False, False, False, True],
          [False, False, False, False, True], [True, False, False, False, True],
          [False, False, False, False, True], [False, False, False, False, True],
          [False, False, False, False, True], [True, True, True, True, True]]"
  define h :: real where "h = 5790342378047781 / 4503599627370496"
  have n: "(3::int) \<le> 8" by simp
  have build: "build_problem_half 8 9 0 100 32 212 90 None (4 / 9) = Inr (T0, F, h, 9 / 8, 9)"
    unfolding T0_def F_def h_def by code_simp
  have q: "fl64 (fl64 (9 / 2) / h) = 7881299347898367 / 2251799813685248"
    unfolding h_def by code_simp
  have r: "py_round (fl64 (fl64 (9 / 2) / h)) = 3" unfolding h_def by code_simp
  obtain j where j: "py_round (fl64 (fl64 (9 / 2) / h)) = int j"
    and k: "\<forall>k. grid_after F (variable_mask F) k T0 ! j ! 0 = Fin 212"
    using zero_size_inner_square [OF n build] by blast
  from j r have "j = 3" by simp
  with k have "grid_after F (variable_mask F) 9 T0 ! 3 ! 0 = Fin 212" by blast
  with n build q r show ?thesis unfolding T0_def F_def h_def by blast
qed

end
